theory Spec2Isabelle
  imports Main "HOL-Library.Monad_Syntax"
begin

section \<open>C integers\<close>

text \<open>
  The program computes with C \<^verbatim>\<open>int\<close>, taken to be 32 bits wide. Values are modelled
  as mathematical integers and the arithmetic of the program goes through checked
  operations, which return \<open>None\<close> where C leaves the behaviour undefined (signed
  overflow, division by zero). \<^verbatim>\<open>/\<close> and \<^verbatim>\<open>%\<close> truncate towards zero.
\<close>

definition INT_MAX :: int where
  "INT_MAX = 2147483647"

definition INT_MIN :: int where
  "INT_MIN = - 2147483648"

definition int_ok :: "int \<Rightarrow> bool" where
  "int_ok x = (INT_MIN \<le> x \<and> x \<le> INT_MAX)"

definition c_add :: "int \<Rightarrow> int \<Rightarrow> int option" where
  "c_add a b = (if int_ok (a + b) then Some (a + b) else None)"

definition c_sub :: "int \<Rightarrow> int \<Rightarrow> int option" where
  "c_sub a b = (if int_ok (a - b) then Some (a - b) else None)"

definition c_mul :: "int \<Rightarrow> int \<Rightarrow> int option" where
  "c_mul a b = (if int_ok (a * b) then Some (a * b) else None)"

definition c_quot :: "int \<Rightarrow> int \<Rightarrow> int" where
  "c_quot a b = sgn a * sgn b * (\<bar>a\<bar> div \<bar>b\<bar>)"

definition c_div :: "int \<Rightarrow> int \<Rightarrow> int option" where
  "c_div a b = (if b = 0 \<or> (a = INT_MIN \<and> b = - 1) then None else Some (c_quot a b))"

definition c_rem :: "int \<Rightarrow> int \<Rightarrow> int option" where
  "c_rem a b = (if b = 0 \<or> (a = INT_MIN \<and> b = - 1) then None else Some (a - b * c_quot a b))"

text \<open>
  Sizes passed to \<^verbatim>\<open>malloc\<close> are computed in \<^verbatim>\<open>size_t\<close>, taken to be 64 bits wide: an
  \<^verbatim>\<open>int\<close> operand is converted modulo \<open>2 ^ 64\<close> and products wrap around. \<^verbatim>\<open>sizeof(int)\<close>
  and \<^verbatim>\<open>sizeof(float)\<close> are taken to be 4.
\<close>

definition size_t_of :: "int \<Rightarrow> int" where
  "size_t_of x = x mod 18446744073709551616"

definition size_mul :: "int \<Rightarrow> int \<Rightarrow> int" where
  "size_mul a b = (a * b) mod 18446744073709551616"

definition sizeof_int :: int where
  "sizeof_int = 4"

definition sizeof_float :: int where
  "sizeof_float = 4"

section \<open>Command line\<close>

text \<open>
  What can go wrong in \<^verbatim>\<open>main\<close> without the C standard defining the outcome.
\<close>

datatype ub = Argv_past_end | Uninitialized_read | Division_by_zero | Signed_overflow

text \<open>
  \<^verbatim>\<open>atoi\<close> of the C library: white space, an optional sign, then decimal digits up to the
  first character that is none; 0 when there is no digit. The C standard leaves the result
  undefined when the number does not fit an \<^verbatim>\<open>int\<close>. The model follows the GNU C library,
  where \<^verbatim>\<open>atoi\<close> is \<^verbatim>\<open>strtol\<close> converted to \<^verbatim>\<open>int\<close>: the number is clamped to the range of
  a 64-bit \<^verbatim>\<open>long\<close> and then cut to its low 32 bits, read as two's complement.
\<close>

definition is_space :: "char \<Rightarrow> bool" where
  "is_space c = (of_char c \<in> {32, 9, 10, 11, 12, 13 :: nat})"

definition is_digit :: "char \<Rightarrow> bool" where
  "is_digit c = (48 \<le> (of_char c :: nat) \<and> (of_char c :: nat) \<le> 57)"

fun atoi_digits :: "int \<Rightarrow> string \<Rightarrow> int" where
  "atoi_digits acc [] = acc"
| "atoi_digits acc (c # cs) =
     (if is_digit c then atoi_digits (10 * acc + (of_char c - 48)) cs else acc)"

definition LONG_MAX :: int where
  "LONG_MAX = 9223372036854775807"

definition LONG_MIN :: int where
  "LONG_MIN = - 9223372036854775808"

definition strtol :: "string \<Rightarrow> int" where
  "strtol s =
     (case dropWhile is_space s of
        [] \<Rightarrow> 0
      | c # cs \<Rightarrow>
          max LONG_MIN (min LONG_MAX
            (if c = CHR ''-'' then - atoi_digits 0 cs
             else if c = CHR ''+'' then atoi_digits 0 cs
             else atoi_digits 0 (c # cs))))"

definition long_to_int :: "int \<Rightarrow> int" where
  "long_to_int x = (x + 2147483648) mod 4294967296 - 2147483648"

definition atoi :: "string \<Rightarrow> int" where
  "atoi s = long_to_int (strtol s)"

text \<open>
  The loop of \<^verbatim>\<open>main\<close> over \<^verbatim>\<open>argv[0..argc)\<close>, with \<^verbatim>\<open>argc = length argv\<close>.
  \<^verbatim>\<open>tp_size\<close> and \<^verbatim>\<open>dp_size\<close> are declared without an initial value: \<open>None\<close> is
  a variable never assigned. On a flag the loop reads \<^verbatim>\<open>argv[i+1]\<close> without looking at
  \<^verbatim>\<open>argc\<close>; for \<^verbatim>\<open>i + 1 = argc\<close> that is the slot after the last argument.
\<close>

function parse_args_loop ::
  "string list \<Rightarrow> nat \<Rightarrow> int option \<Rightarrow> int option \<Rightarrow> ub + (int option \<times> int option)" where
  "parse_args_loop argv i tp_size dp_size =
     (if i < length argv then
        (if argv ! i = ''--tp'' then
           (if i + 1 < length argv
            then parse_args_loop argv (i + 1) (Some (atoi (argv ! (i + 1)))) dp_size
            else Inl Argv_past_end)
         else if argv ! i = ''--dp'' then
           (if i + 1 < length argv
            then parse_args_loop argv (i + 1) tp_size (Some (atoi (argv ! (i + 1))))
            else Inl Argv_past_end)
         else parse_args_loop argv (i + 1) tp_size dp_size)
      else Inr (tp_size, dp_size))"
  by pat_completeness auto
termination
  by (relation "measure (\<lambda>(argv, i, tp_size, dp_size). length argv - i)") auto

declare parse_args_loop.simps [simp del]

definition parse_args :: "string list \<Rightarrow> ub + (int option \<times> int option)" where
  "parse_args argv = parse_args_loop argv 0 None None"

section \<open>Padded vocabulary\<close>

text \<open>
  \<^verbatim>\<open>vocab_size + (dist->dp_size - (vocab_size % dist->dp_size))\<close>, line 140 of
  \<^verbatim>\<open>train_3d.c\<close>.
\<close>

definition vocab_size_padded :: "int \<Rightarrow> int \<Rightarrow> int option" where
  "vocab_size_padded vocab_size dp_size =
     do {
       r \<leftarrow> c_rem vocab_size dp_size;
       t \<leftarrow> c_sub dp_size r;
       c_add vocab_size t
     }"

definition round_up :: "int \<Rightarrow> int \<Rightarrow> int" where
  \<comment> \<open>the smallest multiple of \<open>d\<close> that is at least \<open>v\<close>, for \<open>0 < d\<close>\<close>
  "round_up v d = ((v + d - 1) div d) * d"

section \<open>Memory: layers, activations, the model\<close>

text \<open>
  \<^verbatim>\<open>model.c\<close> is not part of the sources at hand. The structs are modelled as extensible
  records with the fields \<^verbatim>\<open>train_3d.c\<close> reads and writes; whatever else they hold (the
  other dimensions, bias and gradient pointers) is the extension \<open>'x\<close>. A \<^verbatim>\<open>float*\<close> is
  the address of a block of floats; the floats themselves are of an abstract type \<open>'f\<close>.
\<close>

type_synonym addr = nat

record Embedding =
  vocab_size :: int
  embedding :: addr

record Linear =
  in_features :: int
  weight :: addr

record Activation =
  "value" :: addr

record 'x Model =
  wte :: "'x Embedding_scheme"
  fc_1 :: "'x Linear_scheme"
  fc_2 :: "'x Linear_scheme"
  wte_out :: "'x Activation_scheme"
  wte_out_flat :: "'x Activation_scheme"
  fc_1_out :: "'x Activation_scheme"
  relu_out :: "'x Activation_scheme"
  fc_2_out :: "'x Activation_scheme"
  softmax_out :: "'x Activation_scheme"

record ('f, 'x) state =
  self :: "'x Model"
  heap :: "addr \<Rightarrow> 'f list"

definition upd_wte ::
  "('x Embedding_scheme \<Rightarrow> 'x Embedding_scheme) \<Rightarrow> ('f, 'x) state \<Rightarrow> ('f, 'x) state" where
  "upd_wte f s = s\<lparr>self := (self s)\<lparr>wte := f (wte (self s))\<rparr>\<rparr>"

definition upd_fc_1 ::
  "('x Linear_scheme \<Rightarrow> 'x Linear_scheme) \<Rightarrow> ('f, 'x) state \<Rightarrow> ('f, 'x) state" where
  "upd_fc_1 f s = s\<lparr>self := (self s)\<lparr>fc_1 := f (fc_1 (self s))\<rparr>\<rparr>"

definition upd_fc_2 ::
  "('x Linear_scheme \<Rightarrow> 'x Linear_scheme) \<Rightarrow> ('f, 'x) state \<Rightarrow> ('f, 'x) state" where
  "upd_fc_2 f s = s\<lparr>self := (self s)\<lparr>fc_2 := f (fc_2 (self s))\<rparr>\<rparr>"

definition read_floats :: "(addr \<Rightarrow> 'f list) \<Rightarrow> addr \<Rightarrow> int \<Rightarrow> 'f list" where
  \<comment> \<open>the first \<open>n\<close> floats of the block at \<open>p\<close>\<close>
  "read_floats h p n = take (nat n) (h p)"

definition write_floats :: "(addr \<Rightarrow> 'f list) \<Rightarrow> addr \<Rightarrow> 'f list \<Rightarrow> addr \<Rightarrow> 'f list" where
  \<comment> \<open>\<open>xs\<close> stored from the start of the block at \<open>p\<close>; the floats after them stay\<close>
  "write_floats h p xs = h(p := xs @ drop (length xs) (h p))"

section \<open>Process topology\<close>

text \<open>
  \<^verbatim>\<open>distributed.c\<close> is not part of the sources either. \<open>Dist\<close> has the fields used by
  \<^verbatim>\<open>train_3d.c\<close>. A communicator is the list of its members' world ranks, in the order
  of their ranks within the group.
\<close>

type_synonym comm = "nat list"

record Dist =
  world_rank :: int
  tp_rank :: int
  tp_size :: int
  dp_rank :: int
  dp_size :: int
  pp_rank :: int
  tp_comm :: comm
  dp_comm :: comm
  pp_comm :: comm

section \<open>Processes\<close>

text \<open>
  A rank runs alone until it calls into the message-passing runtime, where it waits for
  its peers. A process is therefore a tree: a node is a call, with the memory of the rank
  at the call, what the rank contributes, and the rest of the program as a function of
  what the call delivers. Calls that do not wait for a peer (output, runtime start and
  shutdown, allocation, a compute kernel) are nodes with one successor. The leaves are
  the return of the function, \<^verbatim>\<open>exit\<close>, and undefined behaviour.
\<close>

datatype 'f printf_arg = Arg_int int | Arg_float 'f

datatype 'f event =
    Printf string "'f printf_arg list"
  | Rank0_printf int string "'f printf_arg list"
  | Srand int
  | MPI_Init
  | MPI_Finalize
  | Dist_create_call int int int
  | Dataset_create_from_file_call string int
  | Malloc_int int
  | Malloc_float int

datatype kernel =
    Embedding_forward_k | Linear_forward_k | relu_k | softmax_k | cross_entropy_loss_k

datatype ('f, 's, 'r) proc =
    Done 'r
  | Exit int
  | Undefined ub
  | Out "'f event" "('f, 's, 'r) proc"
  | Compute 's kernel "('f, 's, 'r) proc"
  | Allgather 's comm "'f list" "'f list \<Rightarrow> ('f, 's, 'r) proc"
  | Allreduce_mean 's comm "'f list" int "'f list \<Rightarrow> ('f, 's, 'r) proc"
  | Send 's comm int "'f list" "('f, 's, 'r) proc"
  | Recv 's comm int int "'f list \<Rightarrow> ('f, 's, 'r) proc"
  | Bcast 's comm int "'f option" "'f option \<Rightarrow> ('f, 's, 'r) proc"

primrec bind_proc ::
  "('f, 's, 'a) proc \<Rightarrow> ('a \<Rightarrow> ('f, 's, 'b) proc) \<Rightarrow> ('f, 's, 'b) proc" where
  "bind_proc (Done r) f = f r"
| "bind_proc (Exit n) f = Exit n"
| "bind_proc (Undefined u) f = Undefined u"
| "bind_proc (Out e p) f = Out e (bind_proc p f)"
| "bind_proc (Compute s c p) f = Compute s c (bind_proc p f)"
| "bind_proc (Allgather s c x k) f = Allgather s c x (\<lambda>g. bind_proc (k g) f)"
| "bind_proc (Allreduce_mean s c x n k) f = Allreduce_mean s c x n (\<lambda>g. bind_proc (k g) f)"
| "bind_proc (Send s c t x p) f = Send s c t x (bind_proc p f)"
| "bind_proc (Recv s c t n k) f = Recv s c t n (\<lambda>g. bind_proc (k g) f)"
| "bind_proc (Bcast s c t b k) f = Bcast s c t b (\<lambda>g. bind_proc (k g) f)"

text \<open>The calls a process makes before it first waits for a peer, and where it waits.\<close>

primrec events :: "('f, 's, 'r) proc \<Rightarrow> 'f event list" where
  "events (Done r) = []"
| "events (Exit n) = []"
| "events (Undefined u) = []"
| "events (Out e p) = e # events p"
| "events (Compute s c p) = events p"
| "events (Allgather s c x k) = []"
| "events (Allreduce_mean s c x n k) = []"
| "events (Send s c t x p) = []"
| "events (Recv s c t n k) = []"
| "events (Bcast s c t b k) = []"

primrec advance :: "('f, 's, 'r) proc \<Rightarrow> ('f, 's, 'r) proc" where
  "advance (Done r) = Done r"
| "advance (Exit n) = Exit n"
| "advance (Undefined u) = Undefined u"
| "advance (Out e p) = advance p"
| "advance (Compute s c p) = advance p"
| "advance (Allgather s c x k) = Allgather s c x k"
| "advance (Allreduce_mean s c x n k) = Allreduce_mean s c x n k"
| "advance (Send s c t x p) = Send s c t x p"
| "advance (Recv s c t n k) = Recv s c t n k"
| "advance (Bcast s c t b k) = Bcast s c t b k"

section \<open>Compute kernels\<close>

text \<open>
  The kernels of \<^verbatim>\<open>model.c\<close> are parameters: functions of the memory they read and of
  the structs they are handed, giving the floats they store in the output activation
  (the loss function gives one float). The element counts are parameters as well.
\<close>

record ('f, 'x) kernels =
  Embedding_numel :: "'x Embedding_scheme \<Rightarrow> int"
  Linear_weight_numel :: "'x Linear_scheme \<Rightarrow> int"
  Activation_numel :: "'x Activation_scheme \<Rightarrow> int"
  Embedding_forward_kernel ::
    "(addr \<Rightarrow> 'f list) \<Rightarrow> 'x Embedding_scheme \<Rightarrow> int list \<Rightarrow> 'x Activation_scheme \<Rightarrow> 'f list"
  Linear_forward_kernel ::
    "(addr \<Rightarrow> 'f list) \<Rightarrow> 'x Linear_scheme \<Rightarrow> 'x Activation_scheme \<Rightarrow> 'x Activation_scheme \<Rightarrow> 'f list"
  relu_kernel ::
    "(addr \<Rightarrow> 'f list) \<Rightarrow> 'x Activation_scheme \<Rightarrow> 'x Activation_scheme \<Rightarrow> 'f list"
  softmax_kernel ::
    "(addr \<Rightarrow> 'f list) \<Rightarrow> 'x Activation_scheme \<Rightarrow> 'x Activation_scheme \<Rightarrow> 'f list"
  cross_entropy_loss_kernel ::
    "(addr \<Rightarrow> 'f list) \<Rightarrow> 'x Activation_scheme \<Rightarrow> int list \<Rightarrow> 'f"

text \<open>
  A kernel call is a \<open>Compute\<close> node holding the memory the kernel runs on; the program
  goes on with the output stored.
\<close>

definition Embedding_forward ::
  "('f, 'x) kernels \<Rightarrow> 'x Embedding_scheme \<Rightarrow> int list \<Rightarrow> 'x Activation_scheme \<Rightarrow>
   ('f, 'x) state \<Rightarrow> (('f, 'x) state \<Rightarrow> ('f, ('f, 'x) state, 'r) proc) \<Rightarrow>
   ('f, ('f, 'x) state, 'r) proc" where
  "Embedding_forward K layer Xs out s k =
     Compute s Embedding_forward_k
       (k (s\<lparr>heap := (heap s)(value out := Embedding_forward_kernel K (heap s) layer Xs out)\<rparr>))"

definition Linear_forward ::
  "('f, 'x) kernels \<Rightarrow> 'x Linear_scheme \<Rightarrow> 'x Activation_scheme \<Rightarrow> 'x Activation_scheme \<Rightarrow>
   ('f, 'x) state \<Rightarrow> (('f, 'x) state \<Rightarrow> ('f, ('f, 'x) state, 'r) proc) \<Rightarrow>
   ('f, ('f, 'x) state, 'r) proc" where
  "Linear_forward K layer inp out s k =
     Compute s Linear_forward_k
       (k (s\<lparr>heap := (heap s)(value out := Linear_forward_kernel K (heap s) layer inp out)\<rparr>))"

definition relu ::
  "('f, 'x) kernels \<Rightarrow> 'x Activation_scheme \<Rightarrow> 'x Activation_scheme \<Rightarrow>
   ('f, 'x) state \<Rightarrow> (('f, 'x) state \<Rightarrow> ('f, ('f, 'x) state, 'r) proc) \<Rightarrow>
   ('f, ('f, 'x) state, 'r) proc" where
  "relu K inp out s k =
     Compute s relu_k
       (k (s\<lparr>heap := (heap s)(value out := relu_kernel K (heap s) inp out)\<rparr>))"

definition softmax ::
  "('f, 'x) kernels \<Rightarrow> 'x Activation_scheme \<Rightarrow> 'x Activation_scheme \<Rightarrow>
   ('f, 'x) state \<Rightarrow> (('f, 'x) state \<Rightarrow> ('f, ('f, 'x) state, 'r) proc) \<Rightarrow>
   ('f, ('f, 'x) state, 'r) proc" where
  "softmax K inp out s k =
     Compute s softmax_k
       (k (s\<lparr>heap := (heap s)(value out := softmax_kernel K (heap s) inp out)\<rparr>))"

definition cross_entropy_loss ::
  "('f, 'x) kernels \<Rightarrow> 'x Activation_scheme \<Rightarrow> int list \<Rightarrow>
   ('f, 'x) state \<Rightarrow> ('f \<Rightarrow> ('f, ('f, 'x) state, 'r) proc) \<Rightarrow>
   ('f, ('f, 'x) state, 'r) proc" where
  "cross_entropy_loss K probs Ys s k =
     Compute s cross_entropy_loss_k (k (cross_entropy_loss_kernel K (heap s) probs Ys))"

section \<open>Communication primitives\<close>

text \<open>
  Modelled from the spec: the wrappers \<^verbatim>\<open>allgather\<close>, \<^verbatim>\<open>allreduce_mean\<close>, \<^verbatim>\<open>send\<close> and
  \<^verbatim>\<open>recv\<close> of \<^verbatim>\<open>distributed.c\<close>, which is missing, after section 4.3 of the
  specification. Each reads the floats it contributes from the caller's buffer, waits, and
  stores what it is delivered from the start of the buffer it is given.
\<close>

definition allgather ::
  "addr \<Rightarrow> int \<Rightarrow> addr \<Rightarrow> comm \<Rightarrow> ('f, 'x) state \<Rightarrow>
   (('f, 'x) state \<Rightarrow> ('f, ('f, 'x) state, 'r) proc) \<Rightarrow> ('f, ('f, 'x) state, 'r) proc" where
  "allgather local_shard shard_size out_buffer grp s k =
     Allgather s grp (read_floats (heap s) local_shard shard_size)
       (\<lambda>gathered. k (s\<lparr>heap := write_floats (heap s) out_buffer gathered\<rparr>))"

definition allreduce_mean ::
  "addr \<Rightarrow> int \<Rightarrow> comm \<Rightarrow> int \<Rightarrow> ('f, 'x) state \<Rightarrow>
   (('f, 'x) state \<Rightarrow> ('f, ('f, 'x) state, 'r) proc) \<Rightarrow> ('f, ('f, 'x) state, 'r) proc" where
  "allreduce_mean buffer count grp group_size s k =
     Allreduce_mean s grp (read_floats (heap s) buffer count) group_size
       (\<lambda>mean. k (s\<lparr>heap := write_floats (heap s) buffer mean\<rparr>))"

definition send ::
  "addr \<Rightarrow> int \<Rightarrow> int \<Rightarrow> comm \<Rightarrow> ('f, 'x) state \<Rightarrow>
   (('f, 'x) state \<Rightarrow> ('f, ('f, 'x) state, 'r) proc) \<Rightarrow> ('f, ('f, 'x) state, 'r) proc" where
  "send buffer count to_rank grp s k =
     Send s grp to_rank (read_floats (heap s) buffer count) (k s)"

definition recv ::
  "addr \<Rightarrow> int \<Rightarrow> int \<Rightarrow> comm \<Rightarrow> ('f, 'x) state \<Rightarrow>
   (('f, 'x) state \<Rightarrow> ('f, ('f, 'x) state, 'r) proc) \<Rightarrow> ('f, ('f, 'x) state, 'r) proc" where
  "recv buffer count from_rank grp s k =
     Recv s grp from_rank count
       (\<lambda>received. k (s\<lparr>heap := write_floats (heap s) buffer received\<rparr>))"

text \<open>
  \<^verbatim>\<open>MPI_Bcast(&loss, 1, MPI_FLOAT, root, comm)\<close> on the local variable \<^verbatim>\<open>loss\<close>. The
  variable is \<open>None\<close> while nothing has been assigned to it; the call hands on what the
  variable holds afterwards.
\<close>

definition MPI_Bcast ::
  "'f option \<Rightarrow> int \<Rightarrow> comm \<Rightarrow> 's \<Rightarrow> ('f option \<Rightarrow> ('f, 's, 'r) proc) \<Rightarrow> ('f, 's, 'r) proc" where
  "MPI_Bcast loss root_rank grp s k = Bcast s grp root_rank loss k"

text \<open>\<^verbatim>\<open>return loss;\<close> reads the variable.\<close>

definition return_float :: "'f option \<Rightarrow> 's \<Rightarrow> ('f, 's, 'f \<times> 's) proc" where
  "return_float loss s =
     (case loss of None \<Rightarrow> Undefined Uninitialized_read | Some v \<Rightarrow> Done (v, s))"

text \<open>
  Reading a local variable that may never have been assigned, the result of checked
  arithmetic, and the result of a function that may end the process itself.
\<close>

definition read_var :: "'a option \<Rightarrow> ('a \<Rightarrow> ('f, 's, 'r) proc) \<Rightarrow> ('f, 's, 'r) proc" where
  \<comment> \<open>the value of a local variable, which may never have been assigned\<close>
  "read_var v k = (case v of None \<Rightarrow> Undefined Uninitialized_read | Some x \<Rightarrow> k x)"

definition div_ub :: "int \<Rightarrow> ub" where
  "div_ub b = (if b = 0 then Division_by_zero else Signed_overflow)"

definition defined :: "int option \<Rightarrow> ub \<Rightarrow> (int \<Rightarrow> ('f, 's, 'r) proc) \<Rightarrow> ('f, 's, 'r) proc" where
  \<comment> \<open>the result of checked arithmetic\<close>
  "defined v u k = (case v of None \<Rightarrow> Undefined u | Some x \<Rightarrow> k x)"

definition or_exit :: "'a option \<Rightarrow> ('a \<Rightarrow> ('f, 's, 'r) proc) \<Rightarrow> ('f, 's, 'r) proc" where
  \<comment> \<open>the result of a function that may end the process itself\<close>
  "or_exit v k = (case v of None \<Rightarrow> Exit 1 | Some x \<Rightarrow> k x)"

section \<open>The forward pass\<close>

text \<open>
  \<^verbatim>\<open>Model_forward_3d\<close>, lines 33 to 90 of \<^verbatim>\<open>train_3d.c\<close>. The product of the shard's
  dimension and \<^verbatim>\<open>dp_size\<close> is an \<^verbatim>\<open>int\<close> product: undefined where it overflows.
\<close>

definition Model_forward_3d ::
  "('f, 'x) kernels \<Rightarrow> ('f, 'x) state \<Rightarrow> int list \<Rightarrow> int list \<Rightarrow> addr \<Rightarrow> Dist \<Rightarrow>
   ('f, ('f, 'x) state, 'f \<times> ('f, 'x) state) proc" where
  "Model_forward_3d K s Xs Ys flat_buffer dist =
     (let finish = (\<lambda>loss s.
            MPI_Bcast loss 2 (pp_comm dist) s (\<lambda>loss. return_float loss s)) in
      if pp_rank dist = 0 then
        let wte_shard_size = Embedding_numel K (wte (self s)) in
        allgather (embedding (wte (self s))) wte_shard_size flat_buffer (dp_comm dist) s (\<lambda>s.
        let wte_shard = embedding (wte (self s));
            wte_shard_vocab_size = vocab_size (wte (self s));
            s = upd_wte (\<lambda>w. w\<lparr>embedding := flat_buffer\<rparr>) s in
        defined (c_mul wte_shard_vocab_size (dp_size dist)) Signed_overflow (\<lambda>vocab_size_full.
        let s = upd_wte (\<lambda>w. w\<lparr>vocab_size := vocab_size_full\<rparr>) s in
        Embedding_forward K (wte (self s)) Xs (wte_out (self s)) s (\<lambda>s.
        let s = upd_wte (\<lambda>w. w\<lparr>embedding := wte_shard\<rparr>) s;
            s = upd_wte (\<lambda>w. w\<lparr>vocab_size := wte_shard_vocab_size\<rparr>) s in
        send (value (wte_out (self s))) (Activation_numel K (wte_out (self s))) 1 (pp_comm dist) s (\<lambda>s.
        finish None s))))
      else if pp_rank dist = 1 then
        recv (value (wte_out_flat (self s))) (Activation_numel K (wte_out_flat (self s))) 0
          (pp_comm dist) s (\<lambda>s.
        let fc_1_shard_size = Linear_weight_numel K (fc_1 (self s)) in
        allgather (weight (fc_1 (self s))) fc_1_shard_size flat_buffer (dp_comm dist) s (\<lambda>s.
        let fc_1_shard = weight (fc_1 (self s));
            fc_1_shard_in_features = in_features (fc_1 (self s));
            s = upd_fc_1 (\<lambda>l. l\<lparr>weight := flat_buffer\<rparr>) s in
        defined (c_mul fc_1_shard_in_features (dp_size dist)) Signed_overflow (\<lambda>in_features_full.
        let s = upd_fc_1 (\<lambda>l. l\<lparr>in_features := in_features_full\<rparr>) s in
        Linear_forward K (fc_1 (self s)) (wte_out_flat (self s)) (fc_1_out (self s)) s (\<lambda>s.
        let s = upd_fc_1 (\<lambda>l. l\<lparr>weight := fc_1_shard\<rparr>) s;
            s = upd_fc_1 (\<lambda>l. l\<lparr>in_features := fc_1_shard_in_features\<rparr>) s in
        relu K (fc_1_out (self s)) (relu_out (self s)) s (\<lambda>s.
        send (value (relu_out (self s))) (Activation_numel K (relu_out (self s))) 2 (pp_comm dist) s (\<lambda>s.
        finish None s))))))
      else if pp_rank dist = 2 then
        recv (value (relu_out (self s))) (Activation_numel K (relu_out (self s))) 1
          (pp_comm dist) s (\<lambda>s.
        let fc_2_shard_size = Linear_weight_numel K (fc_2 (self s)) in
        allgather (weight (fc_2 (self s))) fc_2_shard_size flat_buffer (dp_comm dist) s (\<lambda>s.
        let fc_2_shard = weight (fc_2 (self s));
            fc_2_shard_in_features = in_features (fc_2 (self s));
            s = upd_fc_2 (\<lambda>l. l\<lparr>weight := flat_buffer\<rparr>) s in
        defined (c_mul fc_2_shard_in_features (dp_size dist)) Signed_overflow (\<lambda>in_features_full.
        let s = upd_fc_2 (\<lambda>l. l\<lparr>in_features := in_features_full\<rparr>) s in
        Linear_forward K (fc_2 (self s)) (relu_out (self s)) (fc_2_out (self s)) s (\<lambda>s.
        let s = upd_fc_2 (\<lambda>l. l\<lparr>weight := fc_2_shard\<rparr>) s;
            s = upd_fc_2 (\<lambda>l. l\<lparr>in_features := fc_2_shard_in_features\<rparr>) s in
        allreduce_mean (value (fc_2_out (self s))) (Activation_numel K (fc_2_out (self s)))
          (tp_comm dist) (tp_size dist) s (\<lambda>s.
        softmax K (fc_2_out (self s)) (softmax_out (self s)) s (\<lambda>s.
        cross_entropy_loss K (softmax_out (self s)) Ys s (\<lambda>loss.
        finish (Some loss) s)))))))
      else
        Out (Printf ''Unknown pp_rank: %d\<newline>'' [Arg_int (pp_rank dist)])
          (Out MPI_Finalize (Exit 1)))"

section \<open>The message-passing runtime\<close>

text \<open>
  Modelled from the spec: what the blocking primitives deliver (section 4.3), as one
  round of a world of ranks. The world is the list of the ranks' processes, a rank's
  world rank being its index. In a round every rank whose call is matched is given what
  the call delivers and runs on to its next call; every other rank stays where it is.
  A collective is matched when every member of the communicator stands at the same
  collective on that communicator; a send is matched by the addressed member standing at
  the receive from the sender, and the other way round.

  \<^item> all-gather delivers the members' shards, concatenated by ascending rank in the group;
  \<^item> all-reduce-mean delivers the element-wise sum of the members' buffers, each element
    divided by the group size the caller passes;
  \<^item> receive delivers the floats sent;
  \<^item> broadcast delivers the buffer of the root.

  The sum and the division of floats are parameters.
\<close>

record 'f float_ops =
  fadd :: "'f \<Rightarrow> 'f \<Rightarrow> 'f"
  fdiv :: "'f \<Rightarrow> int \<Rightarrow> 'f"

definition member_at :: "comm \<Rightarrow> int \<Rightarrow> nat option" where
  "member_at c i = (if 0 \<le> i \<and> nat i < length c then Some (c ! nat i) else None)"

definition at_Allgather :: "comm \<Rightarrow> ('f, 's, 'r) proc \<Rightarrow> bool" where
  "at_Allgather c p = (case p of Allgather s c' x k \<Rightarrow> c' = c | _ \<Rightarrow> False)"

definition gather_part :: "('f, 's, 'r) proc \<Rightarrow> 'f list" where
  "gather_part p = (case p of Allgather s c x k \<Rightarrow> x | _ \<Rightarrow> [])"

definition at_Allreduce_mean :: "comm \<Rightarrow> ('f, 's, 'r) proc \<Rightarrow> bool" where
  "at_Allreduce_mean c p = (case p of Allreduce_mean s c' x n k \<Rightarrow> c' = c | _ \<Rightarrow> False)"

definition reduce_part :: "('f, 's, 'r) proc \<Rightarrow> 'f list" where
  "reduce_part p = (case p of Allreduce_mean s c x n k \<Rightarrow> x | _ \<Rightarrow> [])"

definition at_Bcast :: "comm \<Rightarrow> int \<Rightarrow> ('f, 's, 'r) proc \<Rightarrow> bool" where
  "at_Bcast c root_rank p =
     (case p of Bcast s c' root_rank' b k \<Rightarrow> c' = c \<and> root_rank' = root_rank | _ \<Rightarrow> False)"

definition bcast_buffer :: "('f, 's, 'r) proc \<Rightarrow> 'f option" where
  "bcast_buffer p = (case p of Bcast s c root_rank b k \<Rightarrow> b | _ \<Rightarrow> None)"

definition at_Recv_from :: "comm \<Rightarrow> nat \<Rightarrow> ('f, 's, 'r) proc \<Rightarrow> bool" where
  "at_Recv_from c r p =
     (case p of Recv s c' from_rank n k \<Rightarrow> c' = c \<and> member_at c from_rank = Some r | _ \<Rightarrow> False)"

definition sent_to :: "comm \<Rightarrow> nat \<Rightarrow> ('f, 's, 'r) proc \<Rightarrow> 'f list option" where
  "sent_to c r p =
     (case p of
        Send s c' to_rank x q \<Rightarrow> if c' = c \<and> member_at c to_rank = Some r then Some x else None
      | _ \<Rightarrow> None)"

definition all_members :: "comm \<Rightarrow> 'a list \<Rightarrow> ('a \<Rightarrow> bool) \<Rightarrow> bool" where
  "all_members c W P = list_all (\<lambda>m. m < length W \<and> P (W ! m)) c"

definition sum_floats :: "'f float_ops \<Rightarrow> 'f list list \<Rightarrow> 'f list" where
  "sum_floats F xss =
     (case xss of [] \<Rightarrow> [] | xs # rest \<Rightarrow> foldl (\<lambda>acc ys. map2 (fadd F) acc ys) xs rest)"

definition rank_step :: "'f float_ops \<Rightarrow> ('f, 's, 'r) proc list \<Rightarrow> nat \<Rightarrow> ('f, 's, 'r) proc" where
  "rank_step F W r =
     (case W ! r of
        Allgather s c x k \<Rightarrow>
          if r \<in> set c \<and> all_members c W (at_Allgather c)
          then k (concat (map (\<lambda>m. gather_part (W ! m)) c))
          else W ! r
      | Allreduce_mean s c x n k \<Rightarrow>
          if r \<in> set c \<and> all_members c W (at_Allreduce_mean c)
          then k (map (\<lambda>v. fdiv F v n) (sum_floats F (map (\<lambda>m. reduce_part (W ! m)) c)))
          else W ! r
      | Send s c to_rank x q \<Rightarrow>
          (case member_at c to_rank of
             Some m \<Rightarrow> if m < length W \<and> at_Recv_from c r (W ! m) then q else W ! r
           | None \<Rightarrow> W ! r)
      | Recv s c from_rank n k \<Rightarrow>
          (case member_at c from_rank of
             Some m \<Rightarrow>
               if m < length W
               then (case sent_to c r (W ! m) of Some x \<Rightarrow> k x | None \<Rightarrow> W ! r)
               else W ! r
           | None \<Rightarrow> W ! r)
      | Bcast s c root_rank b k \<Rightarrow>
          if r \<in> set c \<and> all_members c W (at_Bcast c root_rank)
          then (case member_at c root_rank of Some m \<Rightarrow> k (bcast_buffer (W ! m)) | None \<Rightarrow> W ! r)
          else W ! r
      | p \<Rightarrow> p)"

definition world_round :: "'f float_ops \<Rightarrow> ('f, 's, 'r) proc list \<Rightarrow> ('f, 's, 'r) proc list" where
  "world_round F W = map (\<lambda>r. advance (rank_step F W r)) [0..<length W]"

definition run :: "'f float_ops \<Rightarrow> nat \<Rightarrow> ('f, 's, 'r) proc list \<Rightarrow> ('f, 's, 'r) proc list" where
  "run F n W = (world_round F ^^ n) W"

text \<open>
  The arguments one rank calls \<^verbatim>\<open>Model_forward_3d\<close> with, and the world in which every
  rank has just made the call.
\<close>

record ('f, 'x) forward_args =
  arg_self :: "('f, 'x) state"
  arg_Xs :: "int list"
  arg_Ys :: "int list"
  arg_flat_buffer :: addr
  arg_dist :: Dist

definition forward_world ::
  "('f, 'x) kernels \<Rightarrow> ('f, 'x) forward_args list \<Rightarrow>
   ('f, ('f, 'x) state, 'f \<times> ('f, 'x) state) proc list" where
  "forward_world K args =
     map (\<lambda>a. advance (Model_forward_3d K (arg_self a) (arg_Xs a) (arg_Ys a)
                          (arg_flat_buffer a) (arg_dist a))) args"

text \<open>
  Modelled from the spec: the process topology of section 3, which \<^verbatim>\<open>Dist_create\<close> of the
  missing \<^verbatim>\<open>distributed.c\<close> sets up on every rank. The formula from world rank to
  coordinates is left open there; what is used here is that the members of a
  communicator hold the same communicator, that a pipeline group has one member per
  stage, ranked by its stage, and that the members of a tensor-parallel or data-parallel
  group share their pipeline stage.
\<close>

definition group_ok :: "Dist list \<Rightarrow> nat \<Rightarrow> (Dist \<Rightarrow> comm) \<Rightarrow> bool" where
  "group_ok ds r grp =
     (r \<in> set (grp (ds ! r)) \<and>
      list_all (\<lambda>m. m < length ds \<and> grp (ds ! m) = grp (ds ! r) \<and>
                     pp_rank (ds ! m) = pp_rank (ds ! r)) (grp (ds ! r)))"

definition pipeline_ok :: "Dist list \<Rightarrow> nat \<Rightarrow> bool" where
  "pipeline_ok ds r =
     (length (pp_comm (ds ! r)) = 3 \<and>
      member_at (pp_comm (ds ! r)) (pp_rank (ds ! r)) = Some r \<and>
      list_all (\<lambda>i. pp_comm (ds ! r) ! i < length ds \<and>
                     pp_comm (ds ! (pp_comm (ds ! r) ! i)) = pp_comm (ds ! r) \<and>
                     pp_rank (ds ! (pp_comm (ds ! r) ! i)) = int i) [0, 1, 2])"

definition topology_ok :: "Dist list \<Rightarrow> bool" where
  "topology_ok ds =
     list_all (\<lambda>r. pipeline_ok ds r \<and> group_ok ds r dp_comm \<and> group_ok ds r tp_comm)
       [0..<length ds]"

section \<open>The driver\<close>

text \<open>
  The functions of \<^verbatim>\<open>data.c\<close>, \<^verbatim>\<open>distributed.c\<close> and \<^verbatim>\<open>model.c\<close> that \<^verbatim>\<open>main\<close> calls
  are parameters, as is the allocator. \<open>Dist_create\<close> and the three sharding functions
  give \<open>None\<close> where they end the process themselves (the specification has them fail
  fatally on sizes that do not divide).
\<close>

type_synonym decimal = "int \<times> int"
  \<comment> \<open>a decimal literal: \<open>(m, e)\<close> stands for \<open>m\<close> times ten to the power \<open>e\<close>\<close>

record ('f, 'x, 'd) externals =
  Dist_create :: "int \<Rightarrow> int \<Rightarrow> int \<Rightarrow> Dist option"
  Dataset_create_from_file :: "string \<Rightarrow> int \<Rightarrow> 'd"
  Dataset_train_test_split :: "'d \<Rightarrow> decimal \<Rightarrow> 'd \<times> 'd"
  Dataset_get_rank_batch :: "'d \<Rightarrow> int \<Rightarrow> int \<Rightarrow> int \<Rightarrow> int list \<times> int list"
  Model_create :: "int \<Rightarrow> int \<Rightarrow> int \<Rightarrow> int \<Rightarrow> int \<Rightarrow> ('f, 'x) state"
  Model_pad_vocab :: "('f, 'x) state \<Rightarrow> int \<Rightarrow> ('f, 'x) state"
  Model_shard_tp :: "('f, 'x) state \<Rightarrow> int \<Rightarrow> int \<Rightarrow> ('f, 'x) state option"
  Model_shard_fsdp :: "('f, 'x) state \<Rightarrow> int \<Rightarrow> int \<Rightarrow> ('f, 'x) state option"
  Model_shard_pp :: "('f, 'x) state \<Rightarrow> int \<Rightarrow> ('f, 'x) state option"
  malloc_float :: "('f, 'x) state \<Rightarrow> int \<Rightarrow> addr \<times> ('f, 'x) state"

text \<open>\<^verbatim>\<open>Model_shard_3d\<close>, lines 26 to 30.\<close>

definition Model_shard_3d ::
  "('f, 'x, 'd) externals \<Rightarrow> ('f, 'x) state \<Rightarrow> Dist \<Rightarrow> ('f, 'x) state option" where
  "Model_shard_3d X s dist =
     do {
       s \<leftarrow> Model_shard_tp X s (tp_rank dist) (tp_size dist);
       s \<leftarrow> Model_shard_fsdp X s (dp_rank dist) (dp_size dist);
       Model_shard_pp X s (pp_rank dist)
     }"

text \<open>
  \<^verbatim>\<open>allreduce_mean(&loss, 1, dist->dp_comm, dist->dp_size)\<close> on the local variable of
  \<^verbatim>\<open>main\<close>: a buffer of one float.
\<close>

definition allreduce_mean_var ::
  "'f \<Rightarrow> comm \<Rightarrow> int \<Rightarrow> 's \<Rightarrow> ('f \<Rightarrow> ('f, 's, 'r) proc) \<Rightarrow> ('f, 's, 'r) proc" where
  "allreduce_mean_var v grp group_size s k =
     Allreduce_mean s grp [v] group_size (\<lambda>mean. k (hd (mean @ [v])))"

text \<open>
  \<^verbatim>\<open>main\<close>, lines 93 to 165, with the constants \<^verbatim>\<open>global_batch_size\<close> and \<^verbatim>\<open>vocab_size\<close>
  of lines 94 and 96 as parameters.
  \<open>Malloc_int n\<close> and \<open>Malloc_float n\<close> are calls \<^verbatim>\<open>malloc(n)\<close>, \<open>n\<close> in bytes, for an
  array of \<^verbatim>\<open>int\<close> and of \<^verbatim>\<open>float\<close>.
\<close>

definition main_body ::
  "('f, 'x, 'd) externals \<Rightarrow> ('f, 'x) kernels \<Rightarrow> int \<Rightarrow> int \<Rightarrow> string list \<Rightarrow>
   ('f, ('f, 'x) state, int) proc" where
  "main_body X K global_batch_size vocab_size' argv =
     (let seq_len = 16;
          emb_size = 16;
          hidden_size = 4 * emb_size in
      case parse_args argv of
        Inl u \<Rightarrow> Undefined u
      | Inr (tp_size', dp_size') \<Rightarrow>
         (let pp_size = 3 in
          Out (Srand 42) (
          Out MPI_Init (
          read_var tp_size' (\<lambda>tp.
          read_var dp_size' (\<lambda>dp.
          Out (Dist_create_call tp dp pp_size) (
          or_exit (Dist_create X tp dp pp_size) (\<lambda>dist.
          defined (c_rem global_batch_size (dp_size dist)) (div_ub (dp_size dist)) (\<lambda>r.
          if r \<noteq> 0 then
            Out (Rank0_printf (world_rank dist)
                   ''Global batch size must be divisible by world size!\<newline>'' []) (
            Out MPI_Finalize (
            Exit 1))
          else
          defined (c_div global_batch_size (dp_size dist)) (div_ub (dp_size dist)) (\<lambda>batch_size.
          Out (Rank0_printf (world_rank dist) ''Micro batch_size: %d\<newline>''
                 [Arg_int batch_size]) (
          Out (Dataset_create_from_file_call ''data/names.txt'' seq_len) (
          let dataset = Dataset_create_from_file X ''data/names.txt'' seq_len;
              (train_split, test_split) = Dataset_train_test_split X dataset (9, - 1) in
          Out (Malloc_int (size_mul (size_mul sizeof_int (size_t_of global_batch_size))
                             (size_t_of seq_len))) (
          Out (Malloc_int (size_mul sizeof_int (size_t_of global_batch_size))) (
          Out (Malloc_int (size_mul (size_mul sizeof_int (size_t_of batch_size))
                             (size_t_of seq_len))) (
          Out (Malloc_int (size_mul sizeof_int (size_t_of batch_size))) (
          let model = Model_create X batch_size seq_len vocab_size' emb_size hidden_size in
          defined (vocab_size_padded vocab_size' (dp_size dist)) (div_ub (dp_size dist))
            (\<lambda>vocab_size_padded'.
          let model = Model_pad_vocab X model vocab_size_padded' in
          Out (Rank0_printf (world_rank dist) ''Padded vocab size: %d\<newline>''
                 [Arg_int vocab_size_padded']) (
          let max_layer_size = 0 in
          defined (c_mul (Embedding_numel K (wte (self model))) (dp_size dist)) Signed_overflow
            (\<lambda>wte_size.
          let max_layer_size = max wte_size max_layer_size in
          defined (c_mul (Linear_weight_numel K (fc_1 (self model))) (dp_size dist)) Signed_overflow
            (\<lambda>fc_1_size.
          let max_layer_size = max fc_1_size max_layer_size in
          defined (c_mul (Linear_weight_numel K (fc_2 (self model))) (dp_size dist)) Signed_overflow
            (\<lambda>fc_2_size.
          let max_layer_size = max fc_2_size max_layer_size in
          Out (Rank0_printf (world_rank dist) ''Maximum layer size: %d\<newline>''
                 [Arg_int max_layer_size]) (
          let flat_buffer_bytes = size_mul (size_mul sizeof_float 2) (size_t_of max_layer_size) in
          Out (Malloc_float flat_buffer_bytes) (
          let (flat_buffer, model) = malloc_float X model flat_buffer_bytes in
          or_exit (Model_shard_3d X model dist) (\<lambda>model.
          let (Xs, Ys) = Dataset_get_rank_batch X train_split global_batch_size
                           (dp_rank dist) (dp_size dist) in
          bind_proc (Model_forward_3d K model Xs Ys flat_buffer dist) (\<lambda>(loss, model).
          allreduce_mean_var loss (dp_comm dist) (dp_size dist) model (\<lambda>loss.
          Out (Rank0_printf (world_rank dist) ''step: %d, loss %f\<newline>''
                 [Arg_int 0, Arg_float loss]) (
          Out MPI_Finalize (
          Done 0))))))))))))))))))))))))))))"

definition main ::
  "('f, 'x, 'd) externals \<Rightarrow> ('f, 'x) kernels \<Rightarrow> string list \<Rightarrow> ('f, ('f, 'x) state, int) proc" where
  "main X K argv = main_body X K 32 27 argv"

section \<open>Assertions on processes\<close>

text \<open>
  Properties of a process are stated over its tree, for whatever the runtime delivers.
  \<open>at_calls P R p\<close>: at every call of \<open>p\<close> that waits for a peer the memory satisfies
  \<open>P\<close>, and what \<open>p\<close> returns satisfies \<open>R\<close>.
\<close>

primrec at_calls :: "('s \<Rightarrow> bool) \<Rightarrow> ('r \<Rightarrow> bool) \<Rightarrow> ('f, 's, 'r) proc \<Rightarrow> bool" where
  "at_calls P R (Done r) = R r"
| "at_calls P R (Exit n) = True"
| "at_calls P R (Undefined u) = True"
| "at_calls P R (Out e p) = at_calls P R p"
| "at_calls P R (Compute s c p) = at_calls P R p"
| "at_calls P R (Allgather s c x k) = (P s \<and> (\<forall>g. at_calls P R (k g)))"
| "at_calls P R (Allreduce_mean s c x n k) = (P s \<and> (\<forall>g. at_calls P R (k g)))"
| "at_calls P R (Send s c t x p) = (P s \<and> at_calls P R p)"
| "at_calls P R (Recv s c t n k) = (P s \<and> (\<forall>g. at_calls P R (k g)))"
| "at_calls P R (Bcast s c t b k) = (P s \<and> (\<forall>g. at_calls P R (k g)))"









text \<open>
  The \<^verbatim>\<open>int\<close> product of the dimension of the shard a stage owns and \<^verbatim>\<open>dp_size\<close> does not
  overflow.
\<close>

definition dims_ok :: "('f, 'x) state \<Rightarrow> Dist \<Rightarrow> bool" where
  "dims_ok s dist =
     (if pp_rank dist = 0 then int_ok (vocab_size (wte (self s)) * dp_size dist)
      else if pp_rank dist = 1 then int_ok (in_features (fc_1 (self s)) * dp_size dist)
      else if pp_rank dist = 2 then int_ok (in_features (fc_2 (self s)) * dp_size dist)
      else True)"

section \<open>The protocol of the forward pass\<close>

text \<open>
  The calls a rank still has to make before the final broadcast, in order. \<open>follows pc B
  cs p\<close>: the process \<open>p\<close> stands at the first call of \<open>cs\<close> and makes the calls of \<open>cs\<close>
  one after the other, whatever is delivered; then it stands at the broadcast from rank 2
  of the communicator \<open>pc\<close>, its memory and its \<^verbatim>\<open>loss\<close> variable satisfy \<open>B\<close>, and it
  returns the float the broadcast delivers, with the memory it had at the broadcast.
\<close>

datatype call = AG comm | AR comm | SEND comm int | RECV comm int

primrec follows ::
  "comm \<Rightarrow> ('s \<Rightarrow> 'f option \<Rightarrow> bool) \<Rightarrow> call list \<Rightarrow> ('f, 's, 'f \<times> 's) proc \<Rightarrow> bool" where
  "follows pc B [] p =
     (\<exists>s b k. p = Bcast s pc 2 b k \<and> B s b \<and> (\<forall>v. advance (k (Some v)) = Done (v, s)))"
| "follows pc B (a # cs) p =
     (case a of
        AG c \<Rightarrow> (\<exists>s x k. p = Allgather s c x k \<and> (\<forall>g. follows pc B cs (advance (k g))))
      | AR c \<Rightarrow> (\<exists>s x n k. p = Allreduce_mean s c x n k \<and> (\<forall>g. follows pc B cs (advance (k g))))
      | SEND c t \<Rightarrow> (\<exists>s x q. p = Send s c t x q \<and> follows pc B cs (advance q))
      | RECV c t \<Rightarrow> (\<exists>s n k. p = Recv s c t n k \<and> (\<forall>g. follows pc B cs (advance (k g)))))"

text \<open>
  What a rank with the topology record \<open>d\<close> has left to do after \<open>k\<close> rounds of the
  world in which every rank has called \<^verbatim>\<open>Model_forward_3d\<close>: stage 0 starts at once,
  stage 1 is served in the second round, stage 2 in the fourth.
\<close>

definition todo :: "nat \<Rightarrow> Dist \<Rightarrow> call list" where
  "todo k d =
     (if pp_rank d = 0 then drop k [AG (dp_comm d), SEND (pp_comm d) 1]
      else if pp_rank d = 1 then drop (k - 1) [RECV (pp_comm d) 0, AG (dp_comm d), SEND (pp_comm d) 2]
      else drop (k - 3) [RECV (pp_comm d) 1, AG (dp_comm d), AR (tp_comm d)])"

text \<open>
  The \<^verbatim>\<open>loss\<close> variable at the broadcast: assigned on stage 2, by the loss kernel on the
  memory of the rank and its labels; not assigned on the other stages.
\<close>

definition loss_at_bcast ::
  "('f, 'x) kernels \<Rightarrow> ('f, 'x) forward_args \<Rightarrow> ('f, 'x) state \<Rightarrow> 'f option \<Rightarrow> bool" where
  "loss_at_bcast K a s b =
     (if pp_rank (arg_dist a) = 2
      then b = Some (cross_entropy_loss_kernel K (heap s) (softmax_out (self s)) (arg_Ys a))
      else b = None)"

definition in_round ::
  "('f, 'x) kernels \<Rightarrow> ('f, 'x) forward_args list \<Rightarrow> nat \<Rightarrow>
   ('f, ('f, 'x) state, 'f \<times> ('f, 'x) state) proc list \<Rightarrow> bool" where
  "in_round K args k W =
     (length W = length args \<and>
      (\<forall>r < length args.
         follows (pp_comm (arg_dist (args ! r))) (loss_at_bcast K (args ! r))
           (todo k (arg_dist (args ! r))) (W ! r)))"

definition shape_ok :: "('f, 'x) forward_args \<Rightarrow> bool" where
  "shape_ok a = dims_ok (arg_self a) (arg_dist a)"

text \<open>The float a process has returned.\<close>

definition returned :: "('f, 's, 'f \<times> 's) proc \<Rightarrow> 'f option" where
  "returned p = (case p of Done r \<Rightarrow> Some (fst r) | _ \<Rightarrow> None)"

text \<open>The sizes, in bytes, of the float blocks a process asks the allocator for.\<close>

definition float_allocations :: "'f event list \<Rightarrow> int list" where
  "float_allocations es = concat (map (\<lambda>e. case e of Malloc_float n \<Rightarrow> [n] | _ \<Rightarrow> []) es)"

section \<open>A world of six ranks\<close>

text \<open>
  The scenario of section 8 of the specification: \<^verbatim>\<open>tp_size = 1\<close>, \<^verbatim>\<open>dp_size = 2\<close>, three
  stages, world ranks 4 and 5 on stage 2. Floats are integers here and the kernels are
  small stand-ins. The two data-parallel ranks hold different batches.
\<close>

definition example_kernels :: "(int, unit) kernels" where
  "example_kernels =
     \<lparr>Embedding_numel = (\<lambda>l. vocab_size l),
      Linear_weight_numel = (\<lambda>l. in_features l),
      Activation_numel = (\<lambda>a. 2),
      Embedding_forward_kernel =
        (\<lambda>h l Xs out. map (\<lambda>x. x + sum_list (take (nat (vocab_size l)) (h (embedding l)))) Xs),
      Linear_forward_kernel =
        (\<lambda>h l inp out.
           map (\<lambda>v. v + sum_list (take (nat (in_features l)) (h (weight l)))) (h (value inp))),
      relu_kernel = (\<lambda>h inp out. map (max 0) (h (value inp))),
      softmax_kernel = (\<lambda>h inp out. h (value inp)),
      cross_entropy_loss_kernel = (\<lambda>h probs Ys. sum_list Ys)\<rparr>"

definition example_float_ops :: "int float_ops" where
  "example_float_ops = \<lparr>fadd = (+), fdiv = (\<lambda>v n. v div n)\<rparr>"

definition example_model :: "unit Model" where
  "example_model =
     \<lparr>wte = \<lparr>vocab_size = 1, embedding = 0\<rparr>,
      fc_1 = \<lparr>in_features = 1, weight = 1\<rparr>,
      fc_2 = \<lparr>in_features = 1, weight = 2\<rparr>,
      wte_out = \<lparr>value = 3\<rparr>,
      wte_out_flat = \<lparr>value = 3\<rparr>,
      fc_1_out = \<lparr>value = 4\<rparr>,
      relu_out = \<lparr>value = 5\<rparr>,
      fc_2_out = \<lparr>value = 6\<rparr>,
      softmax_out = \<lparr>value = 7\<rparr>\<rparr>"

definition example_heap :: "nat \<Rightarrow> addr \<Rightarrow> int list" where
  "example_heap r =
     (\<lambda>a. [0, 0])(0 := [int r + 1], 1 := [10 * (int r + 1)], 2 := [100 * (int r + 1)],
                     8 := [0, 0, 0, 0])"

definition example_dist :: "nat \<Rightarrow> Dist" where
  "example_dist r =
     \<lparr>world_rank = int r, tp_rank = 0, tp_size = 1,
      dp_rank = int (r mod 2), dp_size = 2, pp_rank = int (r div 2),
      tp_comm = [r], dp_comm = [2 * (r div 2), 2 * (r div 2) + 1],
      pp_comm = [r mod 2, r mod 2 + 2, r mod 2 + 4]\<rparr>"

definition example_args :: "nat \<Rightarrow> (int, unit) forward_args" where
  "example_args r =
     \<lparr>arg_self = \<lparr>self = example_model, heap = example_heap r\<rparr>,
      arg_Xs = (if r mod 2 = 0 then [1, 2] else [3, 4]),
      arg_Ys = (if r mod 2 = 0 then [1] else [5]),
      arg_flat_buffer = 8,
      arg_dist = example_dist r\<rparr>"

definition example_world_args :: "(int, unit) forward_args list" where
  "example_world_args = map example_args [0, 1, 2, 3, 4, 5]"

text \<open>
  A driver environment for one rank of a world with \<^verbatim>\<open>--tp 1\<close> and any \<^verbatim>\<open>--dp\<close>: the
  topology record carries the sizes asked for.
\<close>

definition example_externals :: "(int, unit, unit) externals" where
  "example_externals =
     \<lparr>Dist_create = (\<lambda>tp dp pp.
        Some \<lparr>world_rank = 0, tp_rank = 0, tp_size = tp, dp_rank = 0, dp_size = dp, pp_rank = 0,
              tp_comm = [0], dp_comm = [0, 1], pp_comm = [0, 2, 4]\<rparr>),
      Dataset_create_from_file = (\<lambda>file seq_len. ()),
      Dataset_train_test_split = (\<lambda>dataset percent. ((), ())),
      Dataset_get_rank_batch = (\<lambda>dataset n dp_rank' dp_size'. ([1, 2], [1])),
      Model_create = (\<lambda>batch_size seq_len v emb hidden. \<lparr>self = example_model, heap = example_heap 0\<rparr>),
      Model_pad_vocab = (\<lambda>s v. s),
      Model_shard_tp = (\<lambda>s i n. Some s),
      Model_shard_fsdp = (\<lambda>s i n. Some s),
      Model_shard_pp = (\<lambda>s i. Some s),
      malloc_float = (\<lambda>s n. (8, s))\<rparr>"

section \<open>Properties\<close>

subsection \<open>Padded vocabulary\<close>

lemma c_quot_nonneg: "0 \<le> a \<Longrightarrow> 0 < b \<Longrightarrow> c_quot a b = a div b"
  by (cases "a = 0") (simp_all add: c_quot_def)

lemma c_quot_neg: "a < 0 \<Longrightarrow> 0 < b \<Longrightarrow> c_quot a b = - ((- a) div b)"
  by (simp add: c_quot_def)

lemma c_rem_pos:
  assumes "0 < b"
  shows "c_rem a b = Some (if 0 \<le> a then a mod b else - ((- a) mod b))"
proof (cases "0 \<le> a")
  case True
  with assms show ?thesis
    by (simp add: c_rem_def c_quot_nonneg minus_mult_div_eq_mod)
next
  case False
  have "- a - b * (- a div b) = - a mod b"
    by (rule minus_mult_div_eq_mod)
  then have "a - b * - (- a div b) = - (- a mod b)"
    by simp
  with False assms show ?thesis
    by (simp add: c_rem_def c_quot_neg)
qed

lemma round_up_dvd:
  assumes "d dvd v" and "0 < d"
  shows "round_up v d = v"
proof -
  from assms obtain k where k: "v = d * k" by (auto simp: dvd_def)
  have e: "d * k + d - 1 = (d - 1) + k * d" by (simp add: algebra_simps)
  have "(d * k + d - 1) div d = ((d - 1) + k * d) div d"
    by (simp only: e)
  also have "\<dots> = (d - 1) div d + k"
    using assms by simp
  also have "\<dots> = k"
    using assms by (simp add: div_pos_pos_trivial)
  finally show ?thesis by (simp add: round_up_def k)
qed

lemma round_up_least:
  assumes "0 < d"
  shows "d dvd round_up v d \<and> v \<le> round_up v d \<and> (\<forall>m. d dvd m \<and> v \<le> m \<longrightarrow> round_up v d \<le> m)"
proof (intro conjI allI impI)
  show "d dvd round_up v d" by (simp add: round_up_def)
  have "(v + d - 1) mod d \<le> d - 1" using assms pos_mod_bound [of d "v + d - 1"] by simp
  moreover have "(v + d - 1) div d * d + (v + d - 1) mod d = v + d - 1"
    by (rule div_mult_mod_eq)
  ultimately show "v \<le> round_up v d"
    unfolding round_up_def by linarith
  fix m assume m: "d dvd m \<and> v \<le> m"
  then obtain k where k: "m = d * k" by (auto simp: dvd_def)
  have "(v + d - 1) div d \<le> (d * k + d - 1) div d"
    using m k assms by (intro zdiv_mono1) auto
  also have "d * k + d - 1 = (d - 1) + k * d" by (simp add: algebra_simps)
  also have "((d - 1) + k * d) div d = k" using assms by simp
  finally show "round_up v d \<le> m" using assms by (simp add: round_up_def k mult.commute)
qed

lemma c_rem_bounds:
  assumes "0 < d"
  shows "\<exists>r. c_rem v d = Some r \<and> \<bar>r\<bar> < d \<and> (0 \<le> v \<longrightarrow> r = v mod d \<and> 0 \<le> r \<and> r \<le> v) \<and>
             (v < 0 \<longrightarrow> r = - ((- v) mod d) \<and> r \<le> 0) \<and> d dvd v - r"
proof (cases "0 \<le> v")
  case True
  with assms c_rem_pos [OF assms, of v] show ?thesis
    using pos_mod_bound [of d v] pos_mod_sign [of d v] zmod_le_nonneg_dividend [of v d]
    by (simp add: dvd_minus_mod)
next
  case False
  have "d dvd - v - (- v) mod d" by (rule dvd_minus_mod)
  then have "d dvd - (- v - (- v) mod d)" by (simp only: dvd_minus_iff)
  moreover have "- (- v - (- v) mod d) = v - (- ((- v) mod d))" by simp
  ultimately have "d dvd v - (- ((- v) mod d))" by (simp only:)
  with False assms c_rem_pos [OF assms, of v] show ?thesis
    using pos_mod_bound [of d "- v"] pos_mod_sign [of d "- v"]
    by simp
qed

text \<open>
  Claim C9, as amended. For a data-parallel size \<open>d\<close> of at least 1 and any \<open>v\<close>, let \<open>r\<close>
  be \<open>v % d\<close>, the remainder of C, which truncates (it is \<open>v mod d\<close> for \<open>v\<close> from 0 on and
  \<open>- (- v mod d)\<close> below). Line 140 gives \<open>v + (d - r)\<close> exactly when \<open>d - r\<close> and
  \<open>v + (d - r)\<close> fit an \<^verbatim>\<open>int\<close>, and is undefined otherwise. The value is a multiple of \<open>d\<close>
  and strictly greater than \<open>v\<close>; when \<open>d\<close> divides \<open>v\<close> already it is \<open>v + d\<close>, one block
  more than the smallest multiple of \<open>d\<close> that is at least \<open>v\<close>. For the vocabulary size 27
  of the program the value is defined for every \<open>d\<close> up to \<open>INT_MAX\<close>.
\<close>

theorem vocab_size_padded_spec:
  assumes "1 \<le> d"
  shows "\<exists>r. c_rem v d = Some r \<and> \<bar>r\<bar> < d \<and>
           (0 \<le> v \<longrightarrow> r = v mod d) \<and> (v < 0 \<longrightarrow> r = - ((- v) mod d)) \<and>
           vocab_size_padded v d =
             (if int_ok (d - r) \<and> int_ok (v + (d - r)) then Some (v + (d - r)) else None) \<and>
           d dvd v + (d - r) \<and> v < v + (d - r) \<and>
           (d dvd v \<longrightarrow> v + (d - r) = v + d \<and> v + (d - r) = round_up v d + d) \<and>
           (v = 27 \<and> d \<le> INT_MAX \<longrightarrow> vocab_size_padded v d = Some (27 + (d - 27 mod d)))"
proof -
  have d: "0 < d" using assms by simp
  from c_rem_bounds [OF d, of v] obtain r where r:
    "c_rem v d = Some r" "\<bar>r\<bar> < d" "0 \<le> v \<longrightarrow> r = v mod d \<and> 0 \<le> r \<and> r \<le> v"
    "v < 0 \<longrightarrow> r = - ((- v) mod d) \<and> r \<le> 0" "d dvd v - r" by blast
  have val: "vocab_size_padded v d =
      (if int_ok (d - r) \<and> int_ok (v + (d - r)) then Some (v + (d - r)) else None)"
    by (simp add: vocab_size_padded_def r(1) c_sub_def c_add_def)
  have "d dvd (v - r) + d" using r(5) by simp
  then have dvd_p: "d dvd v + (d - r)" by (simp add: algebra_simps)
  have gt: "v < v + (d - r)" using r(2) by simp
  have div: "v + (d - r) = v + d \<and> v + (d - r) = round_up v d + d" if "d dvd v"
  proof -
    from that r(3,4) have "r = 0" by (cases "0 \<le> v") simp_all
    with round_up_dvd [OF that d] show ?thesis by simp
  qed
  have prog: "vocab_size_padded v d = Some (27 + (d - 27 mod d))" if "v = 27 \<and> d \<le> INT_MAX"
  proof -
    from that r(3) have r27: "r = 27 mod d" "0 \<le> r" "r \<le> 27" by simp_all
    have "int_ok (d - r)"
      using r27(2,3) that d by (simp add: int_ok_def INT_MAX_def INT_MIN_def)
    moreover have "27 + (d - r) \<le> INT_MAX"
    proof (cases "d \<le> 27")
      case True
      with r27(2,3) show ?thesis by (simp add: INT_MAX_def)
    next
      case False
      then have "(27::int) mod d = 27" using d by simp
      with r27 that show ?thesis by simp
    qed
    then have "int_ok (27 + (d - r))"
      using r27(2,3) d by (simp add: int_ok_def INT_MIN_def)
    ultimately show ?thesis using that val r27 by simp
  qed
  from r(1,2) r(3,4) val dvd_p gt div prog show ?thesis by blast
qed

theorem vocab_size_padded_spec_witness:
  "(1::int) \<le> 1 \<and> (1::int) dvd 27 \<and> (1::int) \<le> INT_MAX \<and>
   c_rem 27 1 = Some 0 \<and> vocab_size_padded 27 1 = Some 28 \<and> round_up 27 1 + 1 = 28"
  using vocab_size_padded_spec [of 1 27] by (auto simp: INT_MAX_def INT_MIN_def int_ok_def)

text \<open>
  For \<open>d = 1\<close> and \<open>v = INT_MAX\<close> line 140 overflows. For \<open>v = - 5\<close> and \<open>d = 2\<close> it gives
  \<open>- 2\<close>, where the formula with the remainder of mathematics gives \<open>- 4\<close>.
\<close>

theorem vocab_size_padded_overflow:
  "(1::int) \<le> 1 \<and> int_ok 2147483647 \<and> vocab_size_padded 2147483647 1 = None \<and>
   vocab_size_padded (- 5) 2 = Some (- 2) \<and> (- 5) + (2 - (- 5) mod 2) = (- 4 :: int)"
  by (simp add: vocab_size_padded_def c_rem_def c_quot_def c_sub_def c_add_def int_ok_def
      INT_MAX_def INT_MIN_def)

subsection \<open>Command line\<close>

lemma parse_args_loop_past_end:
  "i < length argv \<Longrightarrow> last argv = ''--tp'' \<or> last argv = ''--dp'' \<Longrightarrow>
   parse_args_loop argv i t d = Inl Argv_past_end"
proof (induction argv i t d rule: parse_args_loop.induct)
  case (1 argv i t d)
  show ?case
  proof (cases "i + 1 < length argv")
    case True
    with "1.prems" "1.IH" show ?thesis
      by (subst parse_args_loop.simps) simp
  next
    case False
    with "1.prems" have "argv ! i = last argv"
      by (metis Suc_eq_plus1 Suc_lessI diff_Suc_1 last_conv_nth length_greater_0_conv less_nat_zero_code list.size(3))
    with False "1.prems" show ?thesis
      by (subst parse_args_loop.simps) auto
  qed
qed

lemma parse_args_loop_returns:
  "argv = [] \<or> (last argv \<noteq> ''--tp'' \<and> last argv \<noteq> ''--dp'') \<Longrightarrow>
   \<exists>tp' dp'. parse_args_loop argv i t d = Inr (tp', dp')
     \<and> (tp' = None \<longleftrightarrow> t = None \<and> ''--tp'' \<notin> set (drop i argv))
     \<and> (dp' = None \<longleftrightarrow> d = None \<and> ''--dp'' \<notin> set (drop i argv))"
proof (induction argv i t d rule: parse_args_loop.induct)
  case (1 argv i t d)
  show ?case
  proof (cases "i < length argv")
    case False
    then show ?thesis
      by (subst parse_args_loop.simps) simp
  next
    case True
    then have d: "drop i argv = argv ! i # drop (i + 1) argv"
      by (simp add: Cons_nth_drop_Suc)
    have nxt: "argv ! i = ''--tp'' \<or> argv ! i = ''--dp'' \<Longrightarrow> i + 1 < length argv"
    proof (rule ccontr)
      assume f: "argv ! i = ''--tp'' \<or> argv ! i = ''--dp''" and "\<not> i + 1 < length argv"
      with True have "argv ! i = last argv"
        by (metis Suc_eq_plus1 Suc_lessI diff_Suc_1 last_conv_nth length_greater_0_conv less_nat_zero_code list.size(3))
      with f "1.prems" True show False by auto
    qed
    consider (tp) "argv ! i = ''--tp''" | (dp) "argv ! i \<noteq> ''--tp''" "argv ! i = ''--dp''"
      | (other) "argv ! i \<noteq> ''--tp''" "argv ! i \<noteq> ''--dp''" by blast
    then show ?thesis
    proof cases
      case tp
      with True nxt "1.IH"(1) [OF True tp _ "1.prems"] show ?thesis
        by (subst parse_args_loop.simps) (auto simp: d)
    next
      case dp
      with True nxt "1.IH"(2) [OF True dp(1) dp(2) _ "1.prems"] show ?thesis
        by (subst parse_args_loop.simps) (auto simp: d)
    next
      case other
      with True "1.IH"(3) [OF True other "1.prems"] show ?thesis
        by (subst parse_args_loop.simps) (auto simp: d)
    qed
  qed
qed

lemma parse_args_cases:
  "(argv \<noteq> [] \<and> (last argv = ''--tp'' \<or> last argv = ''--dp'') \<longrightarrow>
      parse_args argv = Inl Argv_past_end) \<and>
   (argv = [] \<or> (last argv \<noteq> ''--tp'' \<and> last argv \<noteq> ''--dp'') \<longrightarrow>
      (\<exists>tp dp. parse_args argv = Inr (tp, dp)
         \<and> (tp = None \<longleftrightarrow> ''--tp'' \<notin> set argv)
         \<and> (dp = None \<longleftrightarrow> ''--dp'' \<notin> set argv)))"
  using parse_args_loop_past_end [of 0 argv None None]
    parse_args_loop_returns [of argv 0 None None]
  by (auto simp: parse_args_def)

text \<open>
  Claim C10. The argument loop of \<^verbatim>\<open>main\<close> leaves both sizes assigned exactly when both
  flags occur and the last argument is neither flag. When the last argument is a flag,
  the loop reads \<^verbatim>\<open>argv[argc]\<close>; when it is not and a flag is missing, the variable of
  that flag is still unassigned when \<^verbatim>\<open>main\<close> passes it to \<^verbatim>\<open>Dist_create\<close>.
\<close>

theorem main_command_line:
  "(argv \<noteq> [] \<and> (last argv = ''--tp'' \<or> last argv = ''--dp'') \<longrightarrow>
      parse_args argv = Inl Argv_past_end \<and> main X K argv = Undefined Argv_past_end) \<and>
   ((argv = [] \<or> (last argv \<noteq> ''--tp'' \<and> last argv \<noteq> ''--dp'')) \<and>
    (''--tp'' \<notin> set argv \<or> ''--dp'' \<notin> set argv) \<longrightarrow>
      (\<exists>tp dp. parse_args argv = Inr (tp, dp)
         \<and> (tp = None \<longleftrightarrow> ''--tp'' \<notin> set argv)
         \<and> (dp = None \<longleftrightarrow> ''--dp'' \<notin> set argv)) \<and>
      main X K argv = Out (Srand 42) (Out MPI_Init (Undefined Uninitialized_read))) \<and>
   ((\<exists>tp dp. parse_args argv = Inr (Some tp, Some dp)) \<longleftrightarrow>
      ''--tp'' \<in> set argv \<and> ''--dp'' \<in> set argv \<and>
      last argv \<noteq> ''--tp'' \<and> last argv \<noteq> ''--dp'')"
proof (intro conjI impI)
  assume a: "argv \<noteq> [] \<and> (last argv = ''--tp'' \<or> last argv = ''--dp'')"
  then show p: "parse_args argv = Inl Argv_past_end"
    using parse_args_cases [of argv] by blast
  show "main X K argv = Undefined Argv_past_end"
    by (simp add: main_def main_body_def p)
next
  assume a: "(argv = [] \<or> (last argv \<noteq> ''--tp'' \<and> last argv \<noteq> ''--dp'')) \<and>
    (''--tp'' \<notin> set argv \<or> ''--dp'' \<notin> set argv)"
  then obtain tp dp where p: "parse_args argv = Inr (tp, dp)"
      "tp = None \<longleftrightarrow> ''--tp'' \<notin> set argv" "dp = None \<longleftrightarrow> ''--dp'' \<notin> set argv"
    using parse_args_cases [of argv] by blast
  then show "\<exists>tp dp. parse_args argv = Inr (tp, dp)
         \<and> (tp = None \<longleftrightarrow> ''--tp'' \<notin> set argv)
         \<and> (dp = None \<longleftrightarrow> ''--dp'' \<notin> set argv)" by blast
  from a p(2,3) have "tp = None \<or> dp = None" by blast
  then show "main X K argv = Out (Srand 42) (Out MPI_Init (Undefined Uninitialized_read))"
    by (cases tp) (auto simp: main_def main_body_def p(1) read_var_def)
next
  show "(\<exists>tp dp. parse_args argv = Inr (Some tp, Some dp)) \<longleftrightarrow>
      ''--tp'' \<in> set argv \<and> ''--dp'' \<in> set argv \<and>
      last argv \<noteq> ''--tp'' \<and> last argv \<noteq> ''--dp''"
    using parse_args_cases [of argv] by (cases "argv = []") auto
qed

theorem main_command_line_witness:
  "parse_args [''a.out'', ''--dp'', ''2'', ''--tp''] = Inl Argv_past_end \<and>
   (\<forall>(X :: (int, unit, unit) externals) K.
      main X K [''a.out'', ''--dp'', ''2'', ''--tp''] = Undefined Argv_past_end) \<and>
   (\<forall>(X :: (int, unit, unit) externals) K.
      main X K [''a.out'', ''--dp'', ''2''] =
      Out (Srand 42) (Out MPI_Init (Undefined Uninitialized_read))) \<and>
   (\<exists>tp dp. parse_args [''a.out'', ''--tp'', ''1'', ''--dp'', ''2''] = Inr (Some tp, Some dp))"
proof (intro conjI allI)
  fix X :: "(int, unit, unit) externals" and K :: "(int, unit) kernels"
  show "parse_args [''a.out'', ''--dp'', ''2'', ''--tp''] = Inl Argv_past_end"
    using main_command_line [of "[''a.out'', ''--dp'', ''2'', ''--tp'']" X K] by simp
  show "main X K [''a.out'', ''--dp'', ''2'', ''--tp''] = Undefined Argv_past_end"
    using main_command_line [of "[''a.out'', ''--dp'', ''2'', ''--tp'']" X K] by simp
  show "main X K [''a.out'', ''--dp'', ''2''] =
      Out (Srand 42) (Out MPI_Init (Undefined Uninitialized_read))"
    using main_command_line [of "[''a.out'', ''--dp'', ''2'']" X K] by simp
  show "\<exists>tp dp. parse_args [''a.out'', ''--tp'', ''1'', ''--dp'', ''2''] = Inr (Some tp, Some dp)"
    using main_command_line [of "[''a.out'', ''--tp'', ''1'', ''--dp'', ''2'']" X K] by simp
qed

subsection \<open>One rank in the forward pass\<close>

lemmas forward_defs =
  Model_forward_3d_def Let_def allgather_def allreduce_mean_def send_def recv_def
  MPI_Bcast_def return_float_def Embedding_forward_def Linear_forward_def relu_def
  softmax_def cross_entropy_loss_def upd_wte_def upd_fc_1_def upd_fc_2_def
  defined_def c_mul_def

text \<open>
  Claim C4. At every call of \<^verbatim>\<open>Model_forward_3d\<close> that waits for a peer (all-gather,
  all-reduce, send, receive, broadcast) and when it returns, the model structure is
  the one the function was called with: every weight pointer and every dimension field,
  among them \<^verbatim>\<open>wte->embedding\<close> and \<^verbatim>\<open>wte->vocab_size\<close>, \<^verbatim>\<open>fc_1->weight\<close> and
  \<^verbatim>\<open>fc_1->in_features\<close>, \<^verbatim>\<open>fc_2->weight\<close> and \<^verbatim>\<open>fc_2->in_features\<close>. The pointer to the
  scratch buffer and the scaled dimension are therefore gone before the first call
  after the kernel, on every stage.
\<close>

theorem shard_restored:
  "at_calls
     (\<lambda>s'. self s' = self s)
     (\<lambda>(loss, s'). self s' = self s)
     (Model_forward_3d K s Xs Ys flat_buffer dist)"
  by (simp add: forward_defs split: option.split)

lemma rank_step_Allgather:
  "W ! r = Allgather s c x k \<Longrightarrow> r \<in> set c \<Longrightarrow> all_members c W (at_Allgather c) \<Longrightarrow>
   rank_step F W r = k (concat (map (\<lambda>m. gather_part (W ! m)) c))"
  by (simp add: rank_step_def)

lemma rank_step_Allreduce_mean:
  "W ! r = Allreduce_mean s c x n k \<Longrightarrow> r \<in> set c \<Longrightarrow>
   all_members c W (at_Allreduce_mean c) \<Longrightarrow>
   rank_step F W r =
     k (map (\<lambda>v. fdiv F v n) (sum_floats F (map (\<lambda>m. reduce_part (W ! m)) c)))"
  by (simp add: rank_step_def)




subsection \<open>All ranks in the forward pass\<close>

lemma follows_start:
  assumes "pp_rank (arg_dist a) = 0 \<or> pp_rank (arg_dist a) = 1 \<or> pp_rank (arg_dist a) = 2"
    and "shape_ok a"
  shows "follows (pp_comm (arg_dist a)) (loss_at_bcast K a) (todo 0 (arg_dist a))
           (advance (Model_forward_3d K (arg_self a) (arg_Xs a) (arg_Ys a)
                       (arg_flat_buffer a) (arg_dist a)))"
  using assms
  by (elim disjE) (simp_all add: forward_defs todo_def loss_at_bcast_def shape_ok_def dims_ok_def)

subsection \<open>What a round does to a rank, by the call it stands at\<close>

lemma follows_advance: "follows pc B cs p \<Longrightarrow> advance p = p"
  by (cases cs) (auto split: call.splits)

lemma follows_at_Allgather: "follows pc B (AG c # cs) p \<Longrightarrow> at_Allgather c p"
  by (auto simp: at_Allgather_def)

lemma follows_at_Allreduce_mean: "follows pc B (AR c # cs) p \<Longrightarrow> at_Allreduce_mean c p"
  by (auto simp: at_Allreduce_mean_def)

lemma follows_at_Recv_from:
  "follows pc B (RECV c t # cs) p \<Longrightarrow> member_at c t = Some r \<Longrightarrow> at_Recv_from c r p"
  by (auto simp: at_Recv_from_def)

lemma follows_sent_to:
  "follows pc B (SEND c t # cs) p \<Longrightarrow> member_at c t = Some r \<Longrightarrow> \<exists>x. sent_to c r p = Some x"
  by (auto simp: sent_to_def)

lemma follows_at_Bcast: "follows pc B [] p \<Longrightarrow> at_Bcast pc 2 p"
  by (auto simp: at_Bcast_def)

lemma follows_not_sent:
  "follows pc B (a # cs) p \<Longrightarrow> \<forall>c t. a \<noteq> SEND c t \<Longrightarrow> sent_to c' r p = None"
  by (cases a) (auto simp: sent_to_def)

lemma follows_not_at_Bcast: "follows pc B (a # cs) p \<Longrightarrow> \<not> at_Bcast c t p"
  by (cases a) (auto simp: at_Bcast_def)

lemma step_AG:
  assumes "follows pc B (AG c # cs) (W ! r)" and "r \<in> set c"
    and "\<forall>m\<in>set c. m < length W \<and> at_Allgather c (W ! m)"
  shows "follows pc B cs (advance (rank_step F W r))"
  using assms by (auto simp: rank_step_def all_members_def list_all_iff)

lemma step_AR:
  assumes "follows pc B (AR c # cs) (W ! r)" and "r \<in> set c"
    and "\<forall>m\<in>set c. m < length W \<and> at_Allreduce_mean c (W ! m)"
  shows "follows pc B cs (advance (rank_step F W r))"
  using assms by (auto simp: rank_step_def all_members_def list_all_iff)

lemma step_SEND:
  assumes "follows pc B (SEND c t # cs) (W ! r)" and "member_at c t = Some m"
    and "m < length W" and "at_Recv_from c r (W ! m)"
  shows "follows pc B cs (advance (rank_step F W r))"
  using assms by (auto simp: rank_step_def)

lemma step_RECV:
  assumes "follows pc B (RECV c t # cs) (W ! r)" and "member_at c t = Some m"
    and "m < length W" and "\<exists>x. sent_to c r (W ! m) = Some x"
  shows "follows pc B cs (advance (rank_step F W r))"
  using assms by (auto simp: rank_step_def)

lemma stay_RECV:
  assumes "follows pc B (RECV c t # cs) (W ! r)" and "member_at c t = Some m"
    and "sent_to c r (W ! m) = None"
  shows "advance (rank_step F W r) = W ! r"
  using assms by (auto simp: rank_step_def)

lemma stay_BC:
  assumes "follows pc B [] (W ! r)" and "m \<in> set pc" and "\<not> at_Bcast pc 2 (W ! m)"
  shows "advance (rank_step F W r) = W ! r"
  using assms by (auto simp: rank_step_def all_members_def list_all_iff)

lemma step_BC:
  assumes "follows pc B [] (W ! r)" and "r \<in> set pc"
    and "\<forall>m\<in>set pc. m < length W \<and> at_Bcast pc 2 (W ! m)"
    and "member_at pc 2 = Some m0" and "bcast_buffer (W ! m0) = Some l"
  shows "\<exists>s b k. W ! r = Bcast s pc 2 b k \<and> B s b \<and> advance (rank_step F W r) = Done (l, s)"
  using assms by (auto simp: rank_step_def all_members_def list_all_iff)

subsection \<open>The topology\<close>

lemma topology_okD:
  assumes "topology_ok ds" and "r < length ds"
  shows "pipeline_ok ds r" and "group_ok ds r dp_comm" and "group_ok ds r tp_comm"
  using assms by (auto simp: topology_ok_def list_all_iff)

lemma pipeline_stage:
  assumes "pipeline_ok ds r"
  shows "pp_rank (ds ! r) = 0 \<or> pp_rank (ds ! r) = 1 \<or> pp_rank (ds ! r) = 2"
proof -
  from assms have "0 \<le> pp_rank (ds ! r)" and "nat (pp_rank (ds ! r)) < 3"
    by (auto simp: pipeline_ok_def member_at_def split: if_splits)
  then show ?thesis by linarith
qed

lemma pipeline_self:
  assumes "pipeline_ok ds r"
  shows "member_at (pp_comm (ds ! r)) (pp_rank (ds ! r)) = Some r" and "r \<in> set (pp_comm (ds ! r))"
proof -
  show m: "member_at (pp_comm (ds ! r)) (pp_rank (ds ! r)) = Some r"
    using assms by (simp add: pipeline_ok_def)
  then have "nat (pp_rank (ds ! r)) < length (pp_comm (ds ! r))"
    and "pp_comm (ds ! r) ! nat (pp_rank (ds ! r)) = r"
    by (auto simp: member_at_def split: if_splits)
  then show "r \<in> set (pp_comm (ds ! r))"
    by (metis nth_mem)
qed

lemma pipeline_member:
  assumes "pipeline_ok ds r" and "i = 0 \<or> i = 1 \<or> i = 2"
  shows "\<exists>m. member_at (pp_comm (ds ! r)) (int i) = Some m \<and> m \<in> set (pp_comm (ds ! r)) \<and>
             m < length ds \<and> pp_comm (ds ! m) = pp_comm (ds ! r) \<and> pp_rank (ds ! m) = int i"
  using assms by (auto simp: pipeline_ok_def member_at_def)

lemma pipeline_members:
  assumes "pipeline_ok ds r" and "m \<in> set (pp_comm (ds ! r))"
  shows "m < length ds \<and> pp_comm (ds ! m) = pp_comm (ds ! r) \<and>
         (pp_rank (ds ! m) = 0 \<or> pp_rank (ds ! m) = 1 \<or> pp_rank (ds ! m) = 2)"
proof -
  from assms(1) have len: "length (pp_comm (ds ! r)) = 3" by (simp add: pipeline_ok_def)
  with assms(2) obtain i where i: "i < 3" "m = pp_comm (ds ! r) ! i"
    by (metis in_set_conv_nth)
  then have "i = 0 \<or> i = 1 \<or> i = 2" by linarith
  with assms(1) i(2) show ?thesis
    by (auto simp: pipeline_ok_def)
qed

lemma group_okD:
  assumes "group_ok ds r grp"
  shows "r \<in> set (grp (ds ! r))"
    and "\<forall>m\<in>set (grp (ds ! r)). m < length ds \<and> grp (ds ! m) = grp (ds ! r) \<and>
           pp_rank (ds ! m) = pp_rank (ds ! r)"
  using assms unfolding group_ok_def list_all_iff by blast+

subsection \<open>Round by round\<close>

declare follows.simps [simp del]

lemma length_world_round: "length (world_round F W) = length W"
  by (simp add: world_round_def)

lemma nth_world_round: "r < length W \<Longrightarrow> world_round F W ! r = advance (rank_step F W r)"
  by (simp add: world_round_def)

lemma world_round_in_round:
  assumes topo: "topology_ok ds" and ds: "ds = map arg_dist args"
    and inv: "in_round K args k W" and k6: "k < 6"
  shows "in_round K args (Suc k) (world_round F W)"
proof -
  have len: "length W = length args" and lds: "length ds = length args"
    using inv ds by (simp_all add: in_round_def)
  have P: "follows (pp_comm (ds ! m)) (loss_at_bcast K (args ! m)) (todo k (ds ! m)) (W ! m)"
    if "m < length args" for m
    using inv that by (simp add: in_round_def ds)
  have "follows (pp_comm (ds ! r)) (loss_at_bcast K (args ! r)) (todo (Suc k) (ds ! r))
          (advance (rank_step F W r))" if r: "r < length args" for r
  proof -
    let ?pc = "pp_comm (ds ! r)" and ?B = "loss_at_bcast K (args ! r)"
    have pl: "pipeline_ok ds r" and dpk: "group_ok ds r dp_comm" and tpk: "group_ok ds r tp_comm"
      using topology_okD [OF topo, of r] r lds by simp_all
    note stage = pipeline_stage [OF pl] and self = pipeline_self(1) [OF pl]
    from pipeline_member [OF pl, of 0] obtain m0 where m0:
      "member_at ?pc 0 = Some m0" "m0 \<in> set ?pc" "m0 < length args"
      "pp_comm (ds ! m0) = ?pc" "pp_rank (ds ! m0) = 0" unfolding lds by auto
    from pipeline_member [OF pl, of 1] obtain m1 where m1:
      "member_at ?pc 1 = Some m1" "m1 \<in> set ?pc" "m1 < length args"
      "pp_comm (ds ! m1) = ?pc" "pp_rank (ds ! m1) = 1" unfolding lds by auto
    from pipeline_member [OF pl, of 2] obtain m2 where m2:
      "member_at ?pc 2 = Some m2" "m2 \<in> set ?pc" "m2 < length args"
      "pp_comm (ds ! m2) = ?pc" "pp_rank (ds ! m2) = 2" unfolding lds by auto
    from k6 consider "k = 0" | "k = 1" | "k = 2" | "k = 3" | "k = 4" | "k = 5" by linarith
    then show ?thesis
    proof cases
    
      case k: 1
      from stage show ?thesis
      proof (elim disjE)
        
        assume s: "pp_rank (ds ! r) = 0"
        have all: "\<forall>m\<in>set (dp_comm (ds ! r)). m < length W \<and> at_Allgather (dp_comm (ds ! r)) (W ! m)"
        proof
          fix m assume "m \<in> set (dp_comm (ds ! r))"
          with group_okD(2) [OF dpk]
          have "m < length ds \<and> dp_comm (ds ! m) = dp_comm (ds ! r) \<and>
              pp_rank (ds ! m) = pp_rank (ds ! r)" by blast
          then have m: "m < length args" "dp_comm (ds ! m) = dp_comm (ds ! r)"
              "pp_rank (ds ! m) = pp_rank (ds ! r)" unfolding lds by blast+
          from P [OF m(1)] m(2,3) s k
          have "\<exists>cs. follows (pp_comm (ds ! m)) (loss_at_bcast K (args ! m))
                  (AG (dp_comm (ds ! r)) # cs) (W ! m)"
            by (auto simp: todo_def)
          then have "at_Allgather (dp_comm (ds ! r)) (W ! m)"
            by (blast intro: follows_at_Allgather)
          with m(1) len show "m < length W \<and> at_Allgather (dp_comm (ds ! r)) (W ! m)" by simp
        qed
        from P [OF r] s k
        have "follows ?pc ?B (AG (dp_comm (ds ! r)) # tl (todo k (ds ! r))) (W ! r)"
          by (simp add: todo_def)
        from step_AG [OF this group_okD(1) [OF dpk] all, where F = F] show ?thesis
          using s k by (simp add: todo_def)
        next
        assume s: "pp_rank (ds ! r) = 1"
        from P [OF r] s k
        have fr: "follows ?pc ?B (RECV ?pc 0 # tl (todo k (ds ! r))) (W ! r)"
          by (simp add: todo_def)
        from P [OF m0(3)] m0(4,5) k
        have "\<exists>a cs. follows (pp_comm (ds ! m0)) (loss_at_bcast K (args ! m0))
                (a # cs) (W ! m0) \<and> (\<forall>c t. a \<noteq> SEND c t)"
          by (auto simp: todo_def)
        then have "sent_to ?pc r (W ! m0) = None"
          by (blast intro: follows_not_sent)
        from stay_RECV [OF fr m0(1) this, where F = F] P [OF r] show ?thesis
          using s k by (simp add: todo_def)
        next
        assume s: "pp_rank (ds ! r) = 2"
        from P [OF r] s k
        have fr: "follows ?pc ?B (RECV ?pc 1 # tl (todo k (ds ! r))) (W ! r)"
          by (simp add: todo_def)
        from P [OF m1(3)] m1(4,5) k
        have "\<exists>a cs. follows (pp_comm (ds ! m1)) (loss_at_bcast K (args ! m1))
                (a # cs) (W ! m1) \<and> (\<forall>c t. a \<noteq> SEND c t)"
          by (auto simp: todo_def)
        then have "sent_to ?pc r (W ! m1) = None"
          by (blast intro: follows_not_sent)
        from stay_RECV [OF fr m1(1) this, where F = F] P [OF r] show ?thesis
          using s k by (simp add: todo_def)
      qed
    next
      case k: 2
      from stage show ?thesis
      proof (elim disjE)
        
        assume s: "pp_rank (ds ! r) = 0"
        from P [OF r] s k
        have fr: "follows ?pc ?B (SEND ?pc 1 # tl (todo k (ds ! r))) (W ! r)"
          by (simp add: todo_def)
        from P [OF m1(3)] m1(4,5) k
        have "\<exists>cs. follows (pp_comm (ds ! m1)) (loss_at_bcast K (args ! m1))
                (RECV ?pc 0 # cs) (W ! m1)"
          by (auto simp: todo_def)
        moreover from self s have "member_at ?pc 0 = Some r" by simp
        ultimately have "at_Recv_from ?pc r (W ! m1)"
          by (blast intro: follows_at_Recv_from)
        from step_SEND [OF fr _ _ this, where F = F] m1(1,3) len show ?thesis
          using s k by (simp add: todo_def)
        next
        assume s: "pp_rank (ds ! r) = 1"
        from P [OF r] s k
        have fr: "follows ?pc ?B (RECV ?pc 0 # tl (todo k (ds ! r))) (W ! r)"
          by (simp add: todo_def)
        from P [OF m0(3)] m0(4,5) k
        have "\<exists>cs. follows (pp_comm (ds ! m0)) (loss_at_bcast K (args ! m0))
                (SEND ?pc 1 # cs) (W ! m0)"
          by (auto simp: todo_def)
        moreover from self s have "member_at ?pc 1 = Some r" by simp
        ultimately have "\<exists>x. sent_to ?pc r (W ! m0) = Some x"
          by (blast dest: follows_sent_to)
        from step_RECV [OF fr _ _ this, where F = F] m0(1,3) len show ?thesis
          using s k by (simp add: todo_def)
        next
        assume s: "pp_rank (ds ! r) = 2"
        from P [OF r] s k
        have fr: "follows ?pc ?B (RECV ?pc 1 # tl (todo k (ds ! r))) (W ! r)"
          by (simp add: todo_def)
        from P [OF m1(3)] m1(4,5) k
        have "\<exists>a cs. follows (pp_comm (ds ! m1)) (loss_at_bcast K (args ! m1))
                (a # cs) (W ! m1) \<and> (\<forall>c t. a \<noteq> SEND c t)"
          by (auto simp: todo_def)
        then have "sent_to ?pc r (W ! m1) = None"
          by (blast intro: follows_not_sent)
        from stay_RECV [OF fr m1(1) this, where F = F] P [OF r] show ?thesis
          using s k by (simp add: todo_def)
      qed
    next
      case k: 3
      from stage show ?thesis
      proof (elim disjE)
        
        assume s: "pp_rank (ds ! r) = 0"
        from P [OF r] s k
        have fr: "follows ?pc ?B [] (W ! r)"
          by (simp add: todo_def)
        from P [OF m1(3)] m1(4,5) k
        have "\<exists>a cs. follows (pp_comm (ds ! m1)) (loss_at_bcast K (args ! m1))
                (a # cs) (W ! m1)"
          by (auto simp: todo_def)
        then have "\<not> at_Bcast ?pc 2 (W ! m1)"
          by (blast dest: follows_not_at_Bcast)
        from stay_BC [OF fr m1(2) this, where F = F] P [OF r] show ?thesis
          using s k by (simp add: todo_def)
        next
        assume s: "pp_rank (ds ! r) = 1"
        have all: "\<forall>m\<in>set (dp_comm (ds ! r)). m < length W \<and> at_Allgather (dp_comm (ds ! r)) (W ! m)"
        proof
          fix m assume "m \<in> set (dp_comm (ds ! r))"
          with group_okD(2) [OF dpk]
          have "m < length ds \<and> dp_comm (ds ! m) = dp_comm (ds ! r) \<and>
              pp_rank (ds ! m) = pp_rank (ds ! r)" by blast
          then have m: "m < length args" "dp_comm (ds ! m) = dp_comm (ds ! r)"
              "pp_rank (ds ! m) = pp_rank (ds ! r)" unfolding lds by blast+
          from P [OF m(1)] m(2,3) s k
          have "\<exists>cs. follows (pp_comm (ds ! m)) (loss_at_bcast K (args ! m))
                  (AG (dp_comm (ds ! r)) # cs) (W ! m)"
            by (auto simp: todo_def)
          then have "at_Allgather (dp_comm (ds ! r)) (W ! m)"
            by (blast intro: follows_at_Allgather)
          with m(1) len show "m < length W \<and> at_Allgather (dp_comm (ds ! r)) (W ! m)" by simp
        qed
        from P [OF r] s k
        have "follows ?pc ?B (AG (dp_comm (ds ! r)) # tl (todo k (ds ! r))) (W ! r)"
          by (simp add: todo_def)
        from step_AG [OF this group_okD(1) [OF dpk] all, where F = F] show ?thesis
          using s k by (simp add: todo_def)
        next
        assume s: "pp_rank (ds ! r) = 2"
        from P [OF r] s k
        have fr: "follows ?pc ?B (RECV ?pc 1 # tl (todo k (ds ! r))) (W ! r)"
          by (simp add: todo_def)
        from P [OF m1(3)] m1(4,5) k
        have "\<exists>a cs. follows (pp_comm (ds ! m1)) (loss_at_bcast K (args ! m1))
                (a # cs) (W ! m1) \<and> (\<forall>c t. a \<noteq> SEND c t)"
          by (auto simp: todo_def)
        then have "sent_to ?pc r (W ! m1) = None"
          by (blast intro: follows_not_sent)
        from stay_RECV [OF fr m1(1) this, where F = F] P [OF r] show ?thesis
          using s k by (simp add: todo_def)
      qed
    next
      case k: 4
      from stage show ?thesis
      proof (elim disjE)
        
        assume s: "pp_rank (ds ! r) = 0"
        from P [OF r] s k
        have fr: "follows ?pc ?B [] (W ! r)"
          by (simp add: todo_def)
        from P [OF m1(3)] m1(4,5) k
        have "\<exists>a cs. follows (pp_comm (ds ! m1)) (loss_at_bcast K (args ! m1))
                (a # cs) (W ! m1)"
          by (auto simp: todo_def)
        then have "\<not> at_Bcast ?pc 2 (W ! m1)"
          by (blast dest: follows_not_at_Bcast)
        from stay_BC [OF fr m1(2) this, where F = F] P [OF r] show ?thesis
          using s k by (simp add: todo_def)
        next
        assume s: "pp_rank (ds ! r) = 1"
        from P [OF r] s k
        have fr: "follows ?pc ?B (SEND ?pc 2 # tl (todo k (ds ! r))) (W ! r)"
          by (simp add: todo_def)
        from P [OF m2(3)] m2(4,5) k
        have "\<exists>cs. follows (pp_comm (ds ! m2)) (loss_at_bcast K (args ! m2))
                (RECV ?pc 1 # cs) (W ! m2)"
          by (auto simp: todo_def)
        moreover from self s have "member_at ?pc 1 = Some r" by simp
        ultimately have "at_Recv_from ?pc r (W ! m2)"
          by (blast intro: follows_at_Recv_from)
        from step_SEND [OF fr _ _ this, where F = F] m2(1,3) len show ?thesis
          using s k by (simp add: todo_def)
        next
        assume s: "pp_rank (ds ! r) = 2"
        from P [OF r] s k
        have fr: "follows ?pc ?B (RECV ?pc 1 # tl (todo k (ds ! r))) (W ! r)"
          by (simp add: todo_def)
        from P [OF m1(3)] m1(4,5) k
        have "\<exists>cs. follows (pp_comm (ds ! m1)) (loss_at_bcast K (args ! m1))
                (SEND ?pc 2 # cs) (W ! m1)"
          by (auto simp: todo_def)
        moreover from self s have "member_at ?pc 2 = Some r" by simp
        ultimately have "\<exists>x. sent_to ?pc r (W ! m1) = Some x"
          by (blast dest: follows_sent_to)
        from step_RECV [OF fr _ _ this, where F = F] m1(1,3) len show ?thesis
          using s k by (simp add: todo_def)
      qed
    next
      case k: 5
      from stage show ?thesis
      proof (elim disjE)
        
        assume s: "pp_rank (ds ! r) = 0"
        from P [OF r] s k
        have fr: "follows ?pc ?B [] (W ! r)"
          by (simp add: todo_def)
        from P [OF m2(3)] m2(4,5) k
        have "\<exists>a cs. follows (pp_comm (ds ! m2)) (loss_at_bcast K (args ! m2))
                (a # cs) (W ! m2)"
          by (auto simp: todo_def)
        then have "\<not> at_Bcast ?pc 2 (W ! m2)"
          by (blast dest: follows_not_at_Bcast)
        from stay_BC [OF fr m2(2) this, where F = F] P [OF r] show ?thesis
          using s k by (simp add: todo_def)
        next
        assume s: "pp_rank (ds ! r) = 1"
        from P [OF r] s k
        have fr: "follows ?pc ?B [] (W ! r)"
          by (simp add: todo_def)
        from P [OF m2(3)] m2(4,5) k
        have "\<exists>a cs. follows (pp_comm (ds ! m2)) (loss_at_bcast K (args ! m2))
                (a # cs) (W ! m2)"
          by (auto simp: todo_def)
        then have "\<not> at_Bcast ?pc 2 (W ! m2)"
          by (blast dest: follows_not_at_Bcast)
        from stay_BC [OF fr m2(2) this, where F = F] P [OF r] show ?thesis
          using s k by (simp add: todo_def)
        next
        assume s: "pp_rank (ds ! r) = 2"
        have all: "\<forall>m\<in>set (dp_comm (ds ! r)). m < length W \<and> at_Allgather (dp_comm (ds ! r)) (W ! m)"
        proof
          fix m assume "m \<in> set (dp_comm (ds ! r))"
          with group_okD(2) [OF dpk]
          have "m < length ds \<and> dp_comm (ds ! m) = dp_comm (ds ! r) \<and>
              pp_rank (ds ! m) = pp_rank (ds ! r)" by blast
          then have m: "m < length args" "dp_comm (ds ! m) = dp_comm (ds ! r)"
              "pp_rank (ds ! m) = pp_rank (ds ! r)" unfolding lds by blast+
          from P [OF m(1)] m(2,3) s k
          have "\<exists>cs. follows (pp_comm (ds ! m)) (loss_at_bcast K (args ! m))
                  (AG (dp_comm (ds ! r)) # cs) (W ! m)"
            by (auto simp: todo_def)
          then have "at_Allgather (dp_comm (ds ! r)) (W ! m)"
            by (blast intro: follows_at_Allgather)
          with m(1) len show "m < length W \<and> at_Allgather (dp_comm (ds ! r)) (W ! m)" by simp
        qed
        from P [OF r] s k
        have "follows ?pc ?B (AG (dp_comm (ds ! r)) # tl (todo k (ds ! r))) (W ! r)"
          by (simp add: todo_def)
        from step_AG [OF this group_okD(1) [OF dpk] all, where F = F] show ?thesis
          using s k by (simp add: todo_def)
      qed
    next
      case k: 6
      from stage show ?thesis
      proof (elim disjE)
        
        assume s: "pp_rank (ds ! r) = 0"
        from P [OF r] s k
        have fr: "follows ?pc ?B [] (W ! r)"
          by (simp add: todo_def)
        from P [OF m2(3)] m2(4,5) k
        have "\<exists>a cs. follows (pp_comm (ds ! m2)) (loss_at_bcast K (args ! m2))
                (a # cs) (W ! m2)"
          by (auto simp: todo_def)
        then have "\<not> at_Bcast ?pc 2 (W ! m2)"
          by (blast dest: follows_not_at_Bcast)
        from stay_BC [OF fr m2(2) this, where F = F] P [OF r] show ?thesis
          using s k by (simp add: todo_def)
        next
        assume s: "pp_rank (ds ! r) = 1"
        from P [OF r] s k
        have fr: "follows ?pc ?B [] (W ! r)"
          by (simp add: todo_def)
        from P [OF m2(3)] m2(4,5) k
        have "\<exists>a cs. follows (pp_comm (ds ! m2)) (loss_at_bcast K (args ! m2))
                (a # cs) (W ! m2)"
          by (auto simp: todo_def)
        then have "\<not> at_Bcast ?pc 2 (W ! m2)"
          by (blast dest: follows_not_at_Bcast)
        from stay_BC [OF fr m2(2) this, where F = F] P [OF r] show ?thesis
          using s k by (simp add: todo_def)
        next
        assume s: "pp_rank (ds ! r) = 2"
        have all: "\<forall>m\<in>set (tp_comm (ds ! r)). m < length W \<and> at_Allreduce_mean (tp_comm (ds ! r)) (W ! m)"
        proof
          fix m assume "m \<in> set (tp_comm (ds ! r))"
          with group_okD(2) [OF tpk]
          have "m < length ds \<and> tp_comm (ds ! m) = tp_comm (ds ! r) \<and>
              pp_rank (ds ! m) = pp_rank (ds ! r)" by blast
          then have m: "m < length args" "tp_comm (ds ! m) = tp_comm (ds ! r)"
              "pp_rank (ds ! m) = pp_rank (ds ! r)" unfolding lds by blast+
          from P [OF m(1)] m(2,3) s k
          have "\<exists>cs. follows (pp_comm (ds ! m)) (loss_at_bcast K (args ! m))
                  (AR (tp_comm (ds ! r)) # cs) (W ! m)"
            by (auto simp: todo_def)
          then have "at_Allreduce_mean (tp_comm (ds ! r)) (W ! m)"
            by (blast intro: follows_at_Allreduce_mean)
          with m(1) len show "m < length W \<and> at_Allreduce_mean (tp_comm (ds ! r)) (W ! m)" by simp
        qed
        from P [OF r] s k
        have "follows ?pc ?B (AR (tp_comm (ds ! r)) # tl (todo k (ds ! r))) (W ! r)"
          by (simp add: todo_def)
        from step_AR [OF this group_okD(1) [OF tpk] all, where F = F] show ?thesis
          using s k by (simp add: todo_def)
      qed
    qed
  qed
  then show ?thesis
    using len by (simp add: in_round_def length_world_round nth_world_round ds)
qed

lemma in_round_start:
  assumes "topology_ok (map arg_dist args)" and shapes: "list_all shape_ok args"
  shows "in_round K args 0 (forward_world K args)"
proof -
  have "follows (pp_comm (arg_dist (args ! r))) (loss_at_bcast K (args ! r))
          (todo 0 (arg_dist (args ! r))) (forward_world K args ! r)" if r: "r < length args" for r
  proof -
    from topology_okD(1) [OF assms(1), of r] r have "pipeline_ok (map arg_dist args) r" by simp
    moreover from shapes r have "shape_ok (args ! r)" by (simp add: list_all_length)
    ultimately show ?thesis
      using pipeline_stage [of "map arg_dist args" r] r follows_start [of "args ! r" K]
      by (simp add: forward_world_def)
  qed
  then show ?thesis by (simp add: in_round_def forward_world_def)
qed

lemma in_round_run:
  assumes "topology_ok (map arg_dist args)" and "n \<le> 6" and shapes: "list_all shape_ok args"
  shows "in_round K args n (run F n (forward_world K args))"
  using assms(2)
proof (induction n)
  case 0
  show ?case using in_round_start [OF assms(1) shapes] by (simp add: run_def)
next
  case (Suc n)
  then have "in_round K args n (run F n (forward_world K args))" and "n < 6" by simp_all
  from world_round_in_round [OF assms(1) refl this, of F] show ?case
    by (simp add: run_def)
qed

lemma last_round:
  assumes topo: "topology_ok (map arg_dist args)" and inv: "in_round K args 6 W"
    and r: "r < length args"
  shows "\<exists>l s sc. world_round F W ! r = Done (l, s) \<and>
           world_round F W ! (pp_comm (arg_dist (args ! r)) ! 2) = Done (l, sc) \<and>
           pp_comm (arg_dist (args ! r)) ! 2 < length args \<and>
           pp_rank (arg_dist (args ! (pp_comm (arg_dist (args ! r)) ! 2))) = 2 \<and>
           pp_comm (arg_dist (args ! (pp_comm (arg_dist (args ! r)) ! 2))) =
             pp_comm (arg_dist (args ! r)) \<and>
           l = cross_entropy_loss_kernel K (heap sc) (softmax_out (self sc))
                 (arg_Ys (args ! (pp_comm (arg_dist (args ! r)) ! 2)))"
proof -
  define ds where "ds = map arg_dist args"
  have lds: "length ds = length args" by (simp add: ds_def)
  have len: "length W = length args" using inv by (simp add: in_round_def)
  have nth: "ds ! m = arg_dist (args ! m)" if "m < length args" for m
    using that by (simp add: ds_def)
  have P: "follows (pp_comm (ds ! m)) (loss_at_bcast K (args ! m)) (todo 6 (ds ! m)) (W ! m)"
    if "m < length args" for m
    using inv that by (simp add: in_round_def ds_def)
  have pl: "pipeline_ok ds r"
    using topology_okD(1) [OF topo, of r] r by (simp add: ds_def)
  let ?pc = "pp_comm (ds ! r)"
  from pipeline_member [OF pl, of 2] obtain m2 where m2:
    "member_at ?pc 2 = Some m2" "m2 \<in> set ?pc" "m2 < length args"
    "pp_comm (ds ! m2) = ?pc" "pp_rank (ds ! m2) = 2" unfolding lds by auto
  then have m2_nth: "m2 = ?pc ! 2"
    by (auto simp: member_at_def split: if_splits)
  have at_bcast: "follows ?pc (loss_at_bcast K (args ! m)) [] (W ! m)" if "m \<in> set ?pc" for m
  proof -
    from pipeline_members [OF pl that]
    have m: "m < length args" "pp_comm (ds ! m) = ?pc"
      "pp_rank (ds ! m) = 0 \<or> pp_rank (ds ! m) = 1 \<or> pp_rank (ds ! m) = 2"
      unfolding lds by blast+
    from m(3) have "todo 6 (ds ! m) = []" by (auto simp: todo_def)
    with P [OF m(1)] m(2) show ?thesis by simp
  qed
  have all: "\<forall>m\<in>set ?pc. m < length W \<and> at_Bcast ?pc 2 (W ! m)"
  proof
    fix m assume m: "m \<in> set ?pc"
    from pipeline_members [OF pl m] have "m < length W" unfolding lds len by blast
    with follows_at_Bcast [OF at_bcast [OF m]] show "m < length W \<and> at_Bcast ?pc 2 (W ! m)"
      by simp
  qed
  from at_bcast [OF m2(2)] obtain s2 b2 k2 where root:
    "W ! m2 = Bcast s2 ?pc 2 b2 k2" "loss_at_bcast K (args ! m2) s2 b2"
    by (auto simp: follows.simps)
  define l where "l = cross_entropy_loss_kernel K (heap s2) (softmax_out (self s2)) (arg_Ys (args ! m2))"
  from root(2) m2(5) nth [OF m2(3)] have b2: "b2 = Some l"
    by (simp add: loss_at_bcast_def l_def)
  then have buf: "bcast_buffer (W ! m2) = Some l"
    by (simp add: bcast_buffer_def root(1))
  from step_BC [OF at_bcast [OF pipeline_self(2) [OF pl]] pipeline_self(2) [OF pl] all m2(1) buf,
      where F = F]
  obtain s where s: "advance (rank_step F W r) = Done (l, s)" by blast
  from step_BC [OF at_bcast [OF m2(2)] m2(2) all m2(1) buf, where F = F]
  obtain sc bc kc where sc: "W ! m2 = Bcast sc ?pc 2 bc kc"
    "advance (rank_step F W m2) = Done (l, sc)" by blast
  from sc(1) root(1) have "sc = s2" by simp
  with sc(2) have sc': "advance (rank_step F W m2) = Done (l, s2)" by simp
  show ?thesis
    using s sc' r m2 len l_def
    by (simp add: nth_world_round nth [OF r, symmetric] m2_nth [symmetric] nth [OF m2(3), symmetric])
qed

lemma forward_run:
  assumes "topology_ok (map arg_dist args)" and "r < length args"
    and shapes: "list_all shape_ok args"
  shows "\<exists>l s sc. run F 7 (forward_world K args) ! r = Done (l, s) \<and>
           run F 7 (forward_world K args) ! (pp_comm (arg_dist (args ! r)) ! 2) = Done (l, sc) \<and>
           pp_comm (arg_dist (args ! r)) ! 2 < length args \<and>
           pp_rank (arg_dist (args ! (pp_comm (arg_dist (args ! r)) ! 2))) = 2 \<and>
           pp_comm (arg_dist (args ! (pp_comm (arg_dist (args ! r)) ! 2))) =
             pp_comm (arg_dist (args ! r)) \<and>
           l = cross_entropy_loss_kernel K (heap sc) (softmax_out (self sc))
                 (arg_Ys (args ! (pp_comm (arg_dist (args ! r)) ! 2)))"
proof -
  have "run F 7 (forward_world K args) = world_round F (run F 6 (forward_world K args))"
    by (simp add: run_def eval_nat_numeral)
  with last_round [OF assms(1) in_round_run [OF assms(1) _ shapes, of 6 K F] assms(2), of F]
  show ?thesis by simp
qed

subsection \<open>The driver\<close>

lemma c_rem_not_dvd:
  assumes "b \<noteq> 0" and "\<not> b dvd a"
  shows "\<exists>r. c_rem a b = Some r \<and> r \<noteq> 0"
proof -
  from assms have "\<not> (a = INT_MIN \<and> b = - 1)" by auto
  with assms(1) have "c_rem a b = Some (a - b * c_quot a b)" by (simp add: c_rem_def)
  moreover have "a - b * c_quot a b \<noteq> 0"
  proof
    assume "a - b * c_quot a b = 0"
    then have "a = b * c_quot a b" by simp
    then have "b dvd a" by (metis dvd_triv_left)
    with assms(2) show False by simp
  qed
  ultimately show ?thesis by simp
qed

text \<open>
  Claim C2, as amended. When both sizes are given, \<^verbatim>\<open>Dist_create\<close> returns a topology
  with a \<^verbatim>\<open>dp_size\<close> other than 0 and \<^verbatim>\<open>dp_size\<close> does not divide the global batch size,
  \<^verbatim>\<open>main\<close> seeds the generator, initialises the runtime, calls \<^verbatim>\<open>Dist_create\<close>, which sets
  up the communicators and whose \<^verbatim>\<open>dp_size\<close> the check reads, reports the error on rank 0,
  shuts the runtime down and exits with status 1. Nothing else happens: no dataset, no
  model, no all-gather, all-reduce, send, receive or broadcast.
\<close>

theorem indivisible_batch_exits:
  assumes "parse_args argv = Inr (Some tp, Some dp)"
    and "Dist_create X tp dp 3 = Some dist"
    and "dp_size dist \<noteq> 0" and "\<not> dp_size dist dvd global_batch_size"
  shows "main_body X K global_batch_size v argv =
           Out (Srand 42) (Out MPI_Init (Out (Dist_create_call tp dp 3)
             (Out (Rank0_printf (world_rank dist)
                     ''Global batch size must be divisible by world size!\<newline>'' [])
                (Out MPI_Finalize (Exit 1)))))"
proof -
  from c_rem_not_dvd [OF assms(3,4)] obtain r where
    "c_rem global_batch_size (dp_size dist) = Some r" "r \<noteq> 0" by blast
  with assms(1,2) show ?thesis
    by (simp add: main_body_def read_var_def or_exit_def defined_def)
qed

lemma c_rem_dvd:
  assumes "0 < b" and "b dvd a"
  shows "c_rem a b = Some 0"
proof -
  from assms(2) obtain q where q: "a = b * q" by (auto simp: dvd_def)
  have "sgn q * sgn b * sgn b * \<bar>q\<bar> = q"
    using assms(1) by (simp add: sgn_if)
  then have "c_quot a b = q"
    using assms(1) by (simp add: c_quot_def q sgn_mult abs_mult mult.assoc mult.commute)
  with assms(1) show ?thesis by (simp add: c_rem_def q)
qed

lemma c_div_pos: "0 < b \<Longrightarrow> c_div a b = Some (c_quot a b)"
  by (simp add: c_div_def)

lemma float_allocations_simps:
  "float_allocations [] = []"
  "float_allocations (e # es) = (case e of Malloc_float n \<Rightarrow> [n] | _ \<Rightarrow> []) @ float_allocations es"
  by (simp_all add: float_allocations_def)

lemma forward_float_allocations:
  "float_allocations (events (bind_proc (Model_forward_3d K s Xs Ys fb dist) f)) = []"
  by (simp add: forward_defs float_allocations_simps)

lemma flat_buffer_bytes:
  assumes "0 \<le> m" and "int_ok m"
  shows "size_mul (size_mul sizeof_float 2) (size_t_of m) = sizeof_float * (2 * m)"
  using assms
  by (simp add: size_mul_def size_t_of_def sizeof_float_def int_ok_def INT_MAX_def)

text \<open>
  Claim C3. On a run that gets past the divisibility check and the padding of the
  vocabulary, \<^verbatim>\<open>main\<close> allocates floats once, and the request is \<^verbatim>\<open>sizeof(float)\<close> times
  twice the maximum over the embedding table and the two linear layers of the element
  count times \<^verbatim>\<open>dp_size\<close>. The element counts are those of \<open>model0\<close>, the padded model as
  \<^verbatim>\<open>Model_pad_vocab\<close> returns it, before \<^verbatim>\<open>Model_shard_3d\<close> has touched it. The counts are
  assumed non-negative and the three products to fit an \<^verbatim>\<open>int\<close>.
\<close>

theorem scratch_buffer_capacity:
  assumes "parse_args argv = Inr (Some tp, Some dp)"
    and "Dist_create X tp dp 3 = Some dist"
    and "1 \<le> dp_size dist" and "dp_size dist dvd global_batch_size"
    and "vocab_size_padded v (dp_size dist) = Some vp"
    and "model0 = Model_pad_vocab X
           (Model_create X (c_quot global_batch_size (dp_size dist)) 16 v 16 64) vp"
    and "0 \<le> Embedding_numel K (wte (self model0))"
    and "0 \<le> Linear_weight_numel K (fc_1 (self model0))"
    and "0 \<le> Linear_weight_numel K (fc_2 (self model0))"
    and "int_ok (Embedding_numel K (wte (self model0)) * dp_size dist)"
    and "int_ok (Linear_weight_numel K (fc_1 (self model0)) * dp_size dist)"
    and "int_ok (Linear_weight_numel K (fc_2 (self model0)) * dp_size dist)"
  shows "float_allocations (events (main_body X K global_batch_size v argv)) =
           [sizeof_float *
            (2 * Max {Embedding_numel K (wte (self model0)) * dp_size dist,
                      Linear_weight_numel K (fc_1 (self model0)) * dp_size dist,
                      Linear_weight_numel K (fc_2 (self model0)) * dp_size dist})]"
proof -
  let ?a = "Embedding_numel K (wte (self model0)) * dp_size dist"
    and ?b = "Linear_weight_numel K (fc_1 (self model0)) * dp_size dist"
    and ?c = "Linear_weight_numel K (fc_2 (self model0)) * dp_size dist"
  have d: "0 < dp_size dist" using assms(3) by simp
  have tail: "float_allocations (events (or_exit m
      (\<lambda>model. bind_proc (Model_forward_3d K model Xs Ys fb dist) (f model)))) = []"
    for m :: "('a, 'b) state option" and Xs Ys fb f
    by (cases m) (simp_all add: or_exit_def forward_float_allocations float_allocations_simps)
  have nonneg: "0 \<le> ?a" using assms(7) d by simp
  define M where "M = max ?c (max ?b (max ?a 0))"
  have M: "M = Max {?a, ?b, ?c}" using nonneg by (simp add: M_def max_def)
  have "0 \<le> M" and "int_ok M"
    using nonneg assms(10-12) by (auto simp: M_def max_def)
  from flat_buffer_bytes [OF this]
  have bytes: "size_mul (size_mul sizeof_float 2) (size_t_of M) = sizeof_float * (2 * M)" .
  have "float_allocations (events (main_body X K global_batch_size v argv)) =
      [size_mul (size_mul sizeof_float 2) (size_t_of M)]"
    using assms(1,2,5)
    by (simp add: main_body_def read_var_def or_exit_def [of "Some dist"] defined_def
        c_rem_dvd [OF d assms(4)] c_div_pos [OF d] c_mul_def assms(10-12)
        assms(6) [symmetric] Let_def split_beta float_allocations_simps tail M_def)
  then have "float_allocations (events (main_body X K global_batch_size v argv)) =
      [sizeof_float * (2 * M)]"
    by (simp only: bytes)
  then show ?thesis unfolding M .
qed

subsection \<open>After the last round\<close>

lemma rank_step_Done: "W ! r = Done v \<Longrightarrow> rank_step F W r = Done v"
  by (simp add: rank_step_def)


lemma run_Suc: "run F (Suc n) W = world_round F (run F n W)"
  by (simp add: run_def)

lemma length_run: "length (run F n W) = length W"
  by (induction n) (simp_all add: run_Suc length_world_round, simp add: run_def)

lemma run_Done_stable:
  assumes "r < length W" and "run F n W ! r = Done v"
  shows "run F (n + j) W ! r = Done v"
proof (induction j)
  case 0
  show ?case using assms(2) by simp
next
  case (Suc j)
  from assms(1) have "r < length (run F (n + j) W)" by (simp add: length_run)
  with Suc show ?case
    by (simp add: run_Suc nth_world_round rank_step_Done)
qed

lemma example_topology: "topology_ok (map arg_dist example_world_args)"
  by code_simp

lemma example_length: "length example_world_args = 6"
  by (simp add: example_world_args_def)

lemma example_shapes: "list_all shape_ok example_world_args"
  by code_simp

lemmas example_defs =
  example_world_args_def example_args_def example_dist_def example_heap_def
  example_model_def example_kernels_def example_float_ops_def example_externals_def

text \<open>
  Claim C1, as amended. In a world whose communicators form a correct topology and in
  which no dimension product overflows, every rank has returned after seven rounds and
  stays returned. Its loss is the one returned by the rank at stage 2 of its own
  pipeline communicator, and that is the value of the loss kernel on that rank, on its
  probabilities and its labels. So the loss is the same within a pipeline group; ranks
  of different pipeline groups may return different values.
\<close>

theorem loss_broadcast_in_pipeline_group:
  assumes "topology_ok (map arg_dist args)" and "r < length args"
    and "list_all shape_ok args"
  shows "\<exists>l s sc.
           (\<forall>n\<ge>7. run F n (forward_world K args) ! r = Done (l, s) \<and>
                  run F n (forward_world K args) ! (pp_comm (arg_dist (args ! r)) ! 2) = Done (l, sc)) \<and>
           pp_comm (arg_dist (args ! r)) ! 2 < length args \<and>
           pp_rank (arg_dist (args ! (pp_comm (arg_dist (args ! r)) ! 2))) = 2 \<and>
           pp_comm (arg_dist (args ! (pp_comm (arg_dist (args ! r)) ! 2))) =
             pp_comm (arg_dist (args ! r)) \<and>
           l = cross_entropy_loss_kernel K (heap sc) (softmax_out (self sc))
                 (arg_Ys (args ! (pp_comm (arg_dist (args ! r)) ! 2)))"
proof -
  let ?W = "forward_world K args" and ?root = "pp_comm (arg_dist (args ! r)) ! 2"
  from forward_run [OF assms, of F K] obtain l s sc where run:
    "run F 7 ?W ! r = Done (l, s)" "run F 7 ?W ! ?root = Done (l, sc)"
    "?root < length args" "pp_rank (arg_dist (args ! ?root)) = 2"
    "pp_comm (arg_dist (args ! ?root)) = pp_comm (arg_dist (args ! r))"
    "l = cross_entropy_loss_kernel K (heap sc) (softmax_out (self sc)) (arg_Ys (args ! ?root))"
    by blast
  have len: "length ?W = length args" by (simp add: forward_world_def)
  have "run F n ?W ! r = Done (l, s) \<and> run F n ?W ! ?root = Done (l, sc)" if "7 \<le> n" for n
  proof -
    from that obtain j where n: "n = 7 + j" using le_Suc_ex by blast
    show ?thesis
      unfolding n
      using run_Done_stable [of r ?W F 7 "(l, s)" j] run_Done_stable [of ?root ?W F 7 "(l, sc)" j]
        run(1-3) assms(2) len by simp
  qed
  with run(3-6) show ?thesis by blast
qed

theorem loss_broadcast_in_pipeline_group_witness:
  "topology_ok (map arg_dist example_world_args) \<and> (0::nat) < length example_world_args \<and>
   list_all shape_ok example_world_args \<and>
   (\<exists>s sc. run example_float_ops 7 (forward_world example_kernels example_world_args) ! 0 = Done (1, s) \<and>
            run example_float_ops 7 (forward_world example_kernels example_world_args) ! 4 = Done (1, sc))"
proof -
  have root: "pp_comm (arg_dist (example_world_args ! 0)) ! 2 = 4"
    by (simp add: example_defs)
  have ys: "cross_entropy_loss_kernel example_kernels h p (arg_Ys (example_world_args ! 4)) = 1" for h p
    by (simp add: example_defs)
  from loss_broadcast_in_pipeline_group [OF example_topology _ example_shapes,
      of 0 example_float_ops example_kernels]
  show ?thesis
    unfolding root ys using example_topology example_shapes by (auto simp: example_length)
qed

text \<open>
  In the world of six ranks, ranks 4 and 5 are the stage-2 ranks of the two pipeline
  groups; all pipeline coordinates are in \<open>{0, 1, 2}\<close>, and they return different losses.
\<close>

theorem loss_differs_across_pipeline_groups:
  "topology_ok (map arg_dist example_world_args) \<and>
   list_all (\<lambda>a. pp_rank (arg_dist a) \<in> {0, 1, 2}) example_world_args \<and>
   returned (run example_float_ops 7 (forward_world example_kernels example_world_args) ! 4) = Some 1 \<and>
   returned (run example_float_ops 7 (forward_world example_kernels example_world_args) ! 5) = Some 5"
proof -
  have root: "pp_comm (arg_dist (example_world_args ! 4)) ! 2 = 4"
    "pp_comm (arg_dist (example_world_args ! 5)) ! 2 = 5"
    by (simp_all add: example_defs)
  have ys: "cross_entropy_loss_kernel example_kernels h p (arg_Ys (example_world_args ! 4)) = 1"
    "cross_entropy_loss_kernel example_kernels h p (arg_Ys (example_world_args ! 5)) = 5" for h p
    by (simp_all add: example_defs)
  have stages: "list_all (\<lambda>a. pp_rank (arg_dist a) \<in> {0, 1, 2}) example_world_args"
    by (simp add: example_defs)
  from forward_run [OF example_topology _ example_shapes, of 4 example_float_ops example_kernels]
  have r4: "returned (run example_float_ops 7 (forward_world example_kernels example_world_args) ! 4) = Some 1"
    unfolding root ys by (auto simp: example_length returned_def)
  from forward_run [OF example_topology _ example_shapes, of 5 example_float_ops example_kernels]
  have r5: "returned (run example_float_ops 7 (forward_world example_kernels example_world_args) ! 5) = Some 5"
    unfolding root ys by (auto simp: example_length returned_def)
  from example_topology stages r4 r5 show ?thesis by simp
qed








lemma example_parse:
  "parse_args [''a.out'', ''--tp'', ''1'', ''--dp'', ''3''] = Inr (Some 1, Some 3)"
  "parse_args [''a.out'', ''--tp'', ''1'', ''--dp'', ''2''] = Inr (Some 1, Some 2)"
  by (simp_all add: parse_args_def parse_args_loop.simps atoi_def strtol_def long_to_int_def
      is_space_def is_digit_def LONG_MAX_def LONG_MIN_def)

theorem indivisible_batch_exits_witness:
  "parse_args [''a.out'', ''--tp'', ''1'', ''--dp'', ''3''] = Inr (Some 1, Some 3) \<and>
   \<not> (3::int) dvd 32 \<and>
   main example_externals example_kernels [''a.out'', ''--tp'', ''1'', ''--dp'', ''3''] =
     Out (Srand 42) (Out MPI_Init (Out (Dist_create_call 1 3 3)
       (Out (Rank0_printf 0 ''Global batch size must be divisible by world size!\<newline>'' [])
          (Out MPI_Finalize (Exit 1)))))"
  using indivisible_batch_exits [of "[''a.out'', ''--tp'', ''1'', ''--dp'', ''3'']" 1 3
      example_externals _ 32 example_kernels 27] example_parse(1)
  by (simp add: example_externals_def main_def)

text \<open>
  With \<^verbatim>\<open>--dp 3\<close> the global batch size 32 is not divisible, and \<^verbatim>\<open>main\<close> has called
  \<^verbatim>\<open>Dist_create\<close>, which creates the groups, before it reports the error.
\<close>

theorem group_creation_before_batch_check:
  "\<not> (3::int) dvd 32 \<and>
   events (main example_externals example_kernels [''a.out'', ''--tp'', ''1'', ''--dp'', ''3'']) =
     [Srand 42, MPI_Init, Dist_create_call 1 3 3,
      Rank0_printf 0 ''Global batch size must be divisible by world size!\<newline>'' [],
      MPI_Finalize] \<and>
   advance (main example_externals example_kernels [''a.out'', ''--tp'', ''1'', ''--dp'', ''3'']) =
     Exit 1"
  by (simp add: main_def main_body_def example_parse(1) read_var_def or_exit_def defined_def
      example_externals_def c_rem_def c_quot_def INT_MIN_def)

theorem scratch_buffer_capacity_witness:
  "parse_args [''a.out'', ''--tp'', ''1'', ''--dp'', ''2''] = Inr (Some 1, Some 2) \<and>
   (2::int) dvd 32 \<and> vocab_size_padded 27 2 = Some 28 \<and>
   float_allocations
     (events (main example_externals example_kernels [''a.out'', ''--tp'', ''1'', ''--dp'', ''2''])) =
     [16]"
proof -
  let ?argv = "[''a.out'', ''--tp'', ''1'', ''--dp'', ''2'']"
  let ?dist = "\<lparr>world_rank = 0, tp_rank = 0, tp_size = 1, dp_rank = 0, dp_size = 2, pp_rank = 0,
              tp_comm = [0], dp_comm = [0, 1], pp_comm = [0, 2, 4]\<rparr>"
  let ?m = "\<lparr>self = example_model, heap = example_heap 0\<rparr> :: (int, unit) state"
  have v: "vocab_size_padded 27 2 = Some 28"
    by (simp add: vocab_size_padded_def c_rem_def c_quot_def c_sub_def c_add_def int_ok_def
        INT_MAX_def INT_MIN_def)
  have d: "Dist_create example_externals 1 2 3 = Some ?dist"
    by (simp add: example_externals_def)
  have m: "?m = Model_pad_vocab example_externals
      (Model_create example_externals (c_quot 32 (dp_size ?dist)) 16 27 16 64) 28"
    by (simp add: example_externals_def)
  from scratch_buffer_capacity [OF example_parse(2) d _ _ _ m,
      where K = example_kernels] v
  show ?thesis
    by (simp add: example_parse(2) main_def example_kernels_def example_model_def
        int_ok_def INT_MAX_def INT_MIN_def sizeof_float_def)
qed

end
